theory Spec2Isabelle
  imports Main "HOL-Library.Word" "HOL-Library.Signed_Division" "HOL-Library.Monad_Syntax"
begin

section \<open>The UART calculator of \<^verbatim>\<open>calc/src/main.c\<close>\<close>

text \<open>
  The program has two parts: the receive callback \<^verbatim>\<open>serial_cb\<close>, which assembles
  bytes into lines and puts them on a message queue, and the evaluator
  \<^verbatim>\<open>eval_expression\<close> with \<^verbatim>\<open>perform_operation\<close>, which the loop of
  \<^verbatim>\<open>main\<close> calls on every line taken from the queue.

  Modelling decisions, all of them visible in the definitions below:
  \<^item> A byte (\<^verbatim>\<open>char\<close>, \<^verbatim>\<open>uint8_t\<close>) is a \<^typ>\<open>char\<close>; a C \<^verbatim>\<open>int\<close> is a 32-bit
    word read as two's complement.
  \<^item> The width of \<^verbatim>\<open>long\<close> is not fixed by the source: it is 32 bits on the 32-bit
    targets of Zephyr and 64 bits on a 64-bit host. It is the parameter \<open>long_bits\<close> of
    \<^verbatim>\<open>strtol\<close> and of everything that calls it. \<^verbatim>\<open>strtol\<close> replaces a value outside the
    range of \<^verbatim>\<open>long\<close> by the nearest bound, and the assignment to an \<^verbatim>\<open>int\<close> keeps the
    low 32 bits.
  \<^item> \<^verbatim>\<open>+\<close>, \<^verbatim>\<open>-\<close> and \<^verbatim>\<open>*\<close> wrap around, as the machine instructions do and as the
    specification allows. A division has no such reading: with a zero divisor, and for
    \<open>INT_MIN / -1\<close> and \<open>INT_MIN % -1\<close>, whose quotient does not fit an \<^verbatim>\<open>int\<close>, the
    behaviour of C is undefined (the division instruction of some machines traps), and
    the model has no value there.
  \<^item> A pointer into a character array is the list of the bytes from the pointed-to
    position to the end of the array. \<^verbatim>\<open>p++\<close> is the tail, \<^verbatim>\<open>*p\<close> is the head, and
    reading \<^verbatim>\<open>*p\<close> when the list is empty is a read outside the array.
  \<^item> Every function that reads memory or divides returns an option, and \<open>None\<close> is
    undefined behaviour: a read outside the array or one of the divisions above.
  \<^item> An out-parameter (\<^verbatim>\<open>int *result\<close>) is passed in with its old value and returned
    with its new one.
  \<^item> The library functions \<^verbatim>\<open>isspace\<close>, \<^verbatim>\<open>strlen\<close>, \<^verbatim>\<open>strtol\<close> (ISO C, "C" locale)
    and \<^verbatim>\<open>k_msgq_put\<close> (Zephyr) are not part of the repository; they are modelled
    after their documented behaviour.
\<close>

subsection \<open>Types and constants\<close>

type_synonym int32 = "32 word"

text \<open>The anonymous error enum, with the values the source gives it.\<close>

datatype err = ERR_NONE | ERR_INVALID_EXPR | ERR_ZERO_DIV

fun err_code :: "err \<Rightarrow> int" where
  "err_code ERR_NONE = 0"
| "err_code ERR_INVALID_EXPR = - 1"
| "err_code ERR_ZERO_DIV = - 2"

abbreviation NUL :: char where "NUL \<equiv> CHR 0x00"
abbreviation LF :: char where "LF \<equiv> CHR 0x0A"
abbreviation CR :: char where "CR \<equiv> CHR 0x0D"

text \<open>\<^verbatim>\<open>#define MSG_SIZE 32\<close>\<close>

definition MSG_SIZE :: nat where
  "MSG_SIZE = 32"

text \<open>The bounds of \<^verbatim>\<open>long\<close> and of \<^verbatim>\<open>int\<close>.\<close>

definition LONG_MAX :: "nat \<Rightarrow> int" where
  "LONG_MAX long_bits = 2 ^ (long_bits - 1) - 1"

definition LONG_MIN :: "nat \<Rightarrow> int" where
  "LONG_MIN long_bits = - (2 ^ (long_bits - 1))"

definition INT_MIN :: int where
  "INT_MIN = - (2 ^ 31)"

subsection \<open>Library functions on characters and strings\<close>

text \<open>\<^verbatim>\<open>isspace\<close> in the "C" locale: space, and the five controls from tab to carriage return.\<close>

definition isspace :: "char \<Rightarrow> bool" where
  "isspace c = (c = CHR '' '' \<or> c = CHR 0x09 \<or> c = LF \<or> c = CHR 0x0B \<or> c = CHR 0x0C \<or> c = CR)"

definition isdigit :: "char \<Rightarrow> bool" where
  "isdigit c = (48 \<le> (of_char c :: nat) \<and> (of_char c :: nat) \<le> 57)"

definition digit_val :: "char \<Rightarrow> int" where
  "digit_val c = int (of_char c) - 48"

text \<open>\<^verbatim>\<open>while (isspace(*p)) p++;\<close>: the pointer to the first byte that is not white space.\<close>

fun skip_space :: "char list \<Rightarrow> char list option" where
  "skip_space [] = None"
| "skip_space (c # cs) = (if isspace c then skip_space cs else Some (c # cs))"

text \<open>\<^verbatim>\<open>c = *p; p++;\<close>\<close>

fun read_char :: "char list \<Rightarrow> (char \<times> char list) option" where
  "read_char [] = None"
| "read_char (c # cs) = Some (c, cs)"

text \<open>\<^verbatim>\<open>strlen\<close>: the number of bytes before the first NUL; it reads until it finds one.\<close>

fun strlen :: "char list \<Rightarrow> nat option" where
  "strlen [] = None"
| "strlen (c # cs) = (if c = NUL then Some 0 else map_option Suc (strlen cs))"

text \<open>
  The digit loop of \<^verbatim>\<open>strtol\<close> in base 10: it accumulates the value of the digits read so
  far and stops at the first byte that is not a digit, which it has to read.
\<close>

fun scan_digits :: "int \<Rightarrow> char list \<Rightarrow> (int \<times> char list) option" where
  "scan_digits acc [] = None"
| "scan_digits acc (c # cs) =
     (if isdigit c then scan_digits (10 * acc + digit_val c) cs else Some (acc, c # cs))"

text \<open>A value outside the range of \<^verbatim>\<open>long\<close> is replaced by the nearest bound.\<close>

definition clamp_long :: "nat \<Rightarrow> int \<Rightarrow> int" where
  "clamp_long long_bits v =
     (if v < LONG_MIN long_bits then LONG_MIN long_bits
      else if LONG_MAX long_bits < v then LONG_MAX long_bits
      else v)"

text \<open>
  \<^verbatim>\<open>strtol(nptr, &endptr, 10)\<close>, with the result converted to \<^verbatim>\<open>int\<close> as both call sites
  do. It skips white space, takes one optional sign, then the longest run of digits. With
  no digit there is no conversion: the value is 0 and \<^verbatim>\<open>endptr\<close> is \<^verbatim>\<open>nptr\<close> itself.
\<close>

definition strtol :: "nat \<Rightarrow> char list \<Rightarrow> (int32 \<times> char list) option" where
  "strtol long_bits nptr = do {
     p \<leftarrow> skip_space nptr;
     (c, p') \<leftarrow> read_char p;
     let neg = (c = CHR ''-'');
     let q = (if c = CHR ''-'' \<or> c = CHR ''+'' then p' else p);
     (acc, endptr) \<leftarrow> scan_digits 0 q;
     if length endptr = length q then Some (0, nptr)
     else Some (word_of_int (clamp_long long_bits (if neg then - acc else acc)), endptr)
   }"

subsection \<open>Arithmetic of \<^verbatim>\<open>int\<close>\<close>

text \<open>
  \<^verbatim>\<open>/\<close> and \<^verbatim>\<open>%\<close> of C truncate towards zero, and the remainder has the sign of the
  dividend: on the signed values this is \<open>sdiv\<close> and \<open>smod\<close> of the integers. Both are
  undefined when the divisor is zero and when the quotient does not fit, which is the one
  case of \<open>INT_MIN\<close> and \<open>-1\<close>.
\<close>

definition div_undefined :: "int32 \<Rightarrow> int32 \<Rightarrow> bool" where
  "div_undefined a b = (b = 0 \<or> (sint a = INT_MIN \<and> sint b = - 1))"

definition c_div :: "int32 \<Rightarrow> int32 \<Rightarrow> int32 option" where
  "c_div a b = (if div_undefined a b then None else Some (word_of_int (sint a sdiv sint b)))"

definition c_mod :: "int32 \<Rightarrow> int32 \<Rightarrow> int32 option" where
  "c_mod a b = (if div_undefined a b then None else Some (word_of_int (sint a smod sint b)))"

subsection \<open>The evaluator\<close>

text \<open>
  \<^verbatim>\<open>perform_operation\<close>: the \<^verbatim>\<open>switch\<close> on the operator. The last argument is the old
  value of \<^verbatim>\<open>*result\<close>; the second component of the value is the new one.
\<close>

definition perform_operation :: "int32 \<Rightarrow> int32 \<Rightarrow> char \<Rightarrow> int32 \<Rightarrow> (err \<times> int32) option" where
  "perform_operation operand1 operand2 operator result =
     (if operator = CHR ''+'' then Some (ERR_NONE, operand1 + operand2)
      else if operator = CHR ''-'' then Some (ERR_NONE, operand1 - operand2)
      else if operator = CHR ''*'' then Some (ERR_NONE, operand1 * operand2)
      else if operator = CHR ''/'' then
        (if operand2 \<noteq> 0 then do { q \<leftarrow> c_div operand1 operand2; Some (ERR_NONE, q) }
         else Some (ERR_ZERO_DIV, result))
      else if operator = CHR ''%'' then
        (if operand2 \<noteq> 0 then do { q \<leftarrow> c_mod operand1 operand2; Some (ERR_NONE, q) }
         else Some (ERR_ZERO_DIV, result))
      else Some (ERR_INVALID_EXPR, result))"

text \<open>
  \<^verbatim>\<open>eval_expression\<close>. The operator is read and stepped over without a test for the end
  of the string, exactly as in the source.
\<close>

definition eval_expression :: "nat \<Rightarrow> char list \<Rightarrow> int32 \<Rightarrow> (err \<times> int32) option" where
  "eval_expression long_bits expr result = do {
     (operand1, endptr) \<leftarrow> strtol long_bits expr;
     n \<leftarrow> strlen endptr;
     m \<leftarrow> strlen expr;
     if n = m then Some (ERR_INVALID_EXPR, result)
     else do {
       expr1 \<leftarrow> skip_space endptr;
       (operator, expr2) \<leftarrow> read_char expr1;
       (operand2, endptr2) \<leftarrow> strtol long_bits expr2;
       n2 \<leftarrow> strlen endptr2;
       m2 \<leftarrow> strlen expr2;
       if n2 = m2 then Some (ERR_INVALID_EXPR, result)
       else do {
         expr3 \<leftarrow> skip_space endptr2;
         (c, _) \<leftarrow> read_char expr3;
         if c \<noteq> NUL then Some (ERR_INVALID_EXPR, result)
         else perform_operation operand1 operand2 operator result
       }
     }
   }"

text \<open>
  The part of \<^verbatim>\<open>eval_expression\<close> from the second \<^verbatim>\<open>strtol\<close> on, as a function of
  what the part before it has computed. It only serves to state lemmas about the two halves
  separately; \<open>eval_expression\<close> above does not use it.
\<close>

definition eval_tail ::
  "nat \<Rightarrow> int32 \<Rightarrow> char \<Rightarrow> char list \<Rightarrow> int32 \<Rightarrow> (err \<times> int32) option" where
  "eval_tail long_bits operand1 operator expr2 result = do {
     (operand2, endptr2) \<leftarrow> strtol long_bits expr2;
     n2 \<leftarrow> strlen endptr2;
     m2 \<leftarrow> strlen expr2;
     if n2 = m2 then Some (ERR_INVALID_EXPR, result)
     else do {
       expr3 \<leftarrow> skip_space endptr2;
       (c, _) \<leftarrow> read_char expr3;
       if c \<noteq> NUL then Some (ERR_INVALID_EXPR, result)
       else perform_operation operand1 operand2 operator result
     }
   }"

subsection \<open>The receive callback\<close>

text \<open>
  The state the callback works on: the two static variables, the bytes it has sent with
  \<^verbatim>\<open>uart_poll_out\<close> (oldest first) and the messages in \<^verbatim>\<open>uart_msgq\<close> (oldest first).
\<close>

record rx_state =
  rx_buf :: "char list"
  rx_buf_pos :: int
  uart_out :: "char list"
  uart_msgq :: "char list list"

text \<open>Static storage is zero-initialised; nothing has been sent or queued.\<close>

definition init_state :: rx_state where
  "init_state = \<lparr>rx_buf = replicate MSG_SIZE NUL, rx_buf_pos = 0, uart_out = [], uart_msgq = []\<rparr>"

text \<open>\<^verbatim>\<open>buf[i] = c\<close>: a write outside the array is \<open>None\<close>.\<close>

definition store :: "char list \<Rightarrow> int \<Rightarrow> char \<Rightarrow> char list option" where
  "store buf i c = (if 0 \<le> i \<and> i < int (length buf) then Some (buf[nat i := c]) else None)"

text \<open>
  \<^verbatim>\<open>k_msgq_put(&uart_msgq, data, K_NO_WAIT)\<close> on the queue of
  \<^verbatim>\<open>K_MSGQ_DEFINE(uart_msgq, MSG_SIZE, 10, 4)\<close>: it copies \<^verbatim>\<open>MSG_SIZE\<close> bytes into a free
  slot; with all 10 slots in use it returns at once and the message is lost (the caller
  ignores the return value).
\<close>

definition k_msgq_put :: "char list list \<Rightarrow> char list \<Rightarrow> char list list option" where
  "k_msgq_put q data =
     (if length data < MSG_SIZE then None
      else if length q < 10 then Some (q @ [take MSG_SIZE data]) else Some q)"

text \<open>
  The body of the \<^verbatim>\<open>while\<close> loop for one byte \<open>c\<close> read from the FIFO. In
  \<^verbatim>\<open>rx_buf_pos < (sizeof(rx_buf) - 1)\<close> the left side is converted to the unsigned type of
  the right side, which is the \<open>mod\<close> below.
\<close>

definition serial_cb_byte :: "char \<Rightarrow> rx_state \<Rightarrow> rx_state option" where
  "serial_cb_byte c s =
     (if c = LF \<or> c = CR then
        (if rx_buf_pos s = 0 then Some s
         else do {
           buf \<leftarrow> store (rx_buf s) (rx_buf_pos s) NUL;
           q \<leftarrow> k_msgq_put (uart_msgq s) buf;
           Some (s\<lparr>rx_buf := buf, uart_out := uart_out s @ [CR, LF], uart_msgq := q,
                   rx_buf_pos := 0\<rparr>)
         })
      else if rx_buf_pos s mod 2 ^ 32 < int MSG_SIZE - 1 then do {
        buf \<leftarrow> store (rx_buf s) (rx_buf_pos s) c;
        Some (s\<lparr>rx_buf := buf, rx_buf_pos := rx_buf_pos s + 1, uart_out := uart_out s @ [c]\<rparr>)
      }
      else Some s)"

text \<open>The loop runs until the FIFO is empty: \<open>fifo\<close> holds the bytes it will read.\<close>

fun serial_cb_loop :: "char list \<Rightarrow> rx_state \<Rightarrow> rx_state option" where
  "serial_cb_loop [] s = Some s"
| "serial_cb_loop (c # fifo) s = do { s' \<leftarrow> serial_cb_byte c s; serial_cb_loop fifo s' }"

text \<open>
  \<^verbatim>\<open>serial_cb\<close>. The two flags are what \<^verbatim>\<open>uart_irq_update\<close> and \<^verbatim>\<open>uart_irq_rx_ready\<close>
  return.
\<close>

definition serial_cb :: "bool \<Rightarrow> bool \<Rightarrow> char list \<Rightarrow> rx_state \<Rightarrow> rx_state option" where
  "serial_cb irq_update rx_ready fifo s =
     (if \<not> irq_update then Some s
      else if \<not> rx_ready then Some s
      else serial_cb_loop fifo s)"

text \<open>
  The transport delivering bytes one at a time: one interrupt, and so one call of the
  callback, for each byte.
\<close>

fun feed :: "char list \<Rightarrow> rx_state \<Rightarrow> rx_state option" where
  "feed [] s = Some s"
| "feed (b # bs) s = do { s' \<leftarrow> serial_cb True True [b] s; feed bs s' }"

text \<open>The states the callback can be in: the initial one, and what one byte makes of such a state.\<close>

inductive reachable :: "rx_state \<Rightarrow> bool" where
  reachable_init: "reachable init_state"
| reachable_step: "reachable s \<Longrightarrow> serial_cb_byte c s = Some s' \<Longrightarrow> reachable s'"

text \<open>
  The invariant of the two static variables: the buffer has its \<^verbatim>\<open>MSG_SIZE\<close> bytes and
  the cursor is one of its indices.
\<close>

definition rx_inv :: "rx_state \<Rightarrow> bool" where
  "rx_inv s = (length (rx_buf s) = MSG_SIZE \<and> 0 \<le> rx_buf_pos s \<and> rx_buf_pos s \<le> 31)"

text \<open>A line terminator, as the callback tests for it.\<close>

definition is_terminator :: "char \<Rightarrow> bool" where
  "is_terminator c = (c = LF \<or> c = CR)"

text \<open>The line a message holds: its bytes before the first NUL.\<close>

definition cstring :: "char list \<Rightarrow> char list" where
  "cstring buf = takeWhile (\<lambda>c. c \<noteq> NUL) buf"

subsection \<open>The driving loop\<close>

text \<open>What \<^verbatim>\<open>%d\<close> prints.\<close>

fun show_nat :: "nat \<Rightarrow> char list" where
  "show_nat n = (if n < 10 then [char_of (48 + n)] else show_nat (n div 10) @ [char_of (48 + n mod 10)])"

declare show_nat.simps [simp del]

definition show_int :: "int \<Rightarrow> char list" where
  "show_int i = (if i < 0 then CHR ''-'' # show_nat (nat (- i)) else show_nat (nat i))"

text \<open>\<^verbatim>\<open>sprintf(tx_buf, "Result: %d", result)\<close>: the text and its NUL go to the front of the buffer.\<close>

definition sprintf_result :: "char list \<Rightarrow> int32 \<Rightarrow> char list option" where
  "sprintf_result tx_buf result =
     (let s = ''Result: '' @ show_int (sint result) @ [NUL]
      in if length s \<le> length tx_buf then Some (s @ drop (length s) tx_buf) else None)"

text \<open>\<^verbatim>\<open>print_uart\<close>: the bytes it sends.\<close>

definition print_uart :: "char list \<Rightarrow> char \<Rightarrow> char list option" where
  "print_uart buf endl = do {
     msg_len \<leftarrow> strlen buf;
     Some (take msg_len buf @ (if endl \<noteq> NUL then [CR, LF] else []))
   }"

text \<open>
  One round of the \<^verbatim>\<open>while\<close> loop of \<^verbatim>\<open>main\<close>, after \<^verbatim>\<open>k_msgq_get\<close> has filled
  \<^verbatim>\<open>tx_buf\<close>: the bytes it sends. The second call of \<^verbatim>\<open>eval_expression\<close> is there as in
  the source.
\<close>

definition main_iteration :: "nat \<Rightarrow> char list \<Rightarrow> char list option" where
  "main_iteration long_bits tx_buf = do {
     (rc, result) \<leftarrow> eval_expression long_bits tx_buf 0;
     if rc = ERR_NONE then do {
       tx_buf' \<leftarrow> sprintf_result tx_buf result;
       print_uart tx_buf' (CHR 0x01)
     }
     else do {
       (rc', result') \<leftarrow> eval_expression long_bits tx_buf result;
       if rc' = ERR_ZERO_DIV then print_uart (''Division by zero!'' @ [NUL]) (CHR 0x01)
       else print_uart (''Invalid expression!'' @ [NUL]) (CHR 0x01)
     }
   }"

text \<open>
  The loop itself never ends: \<^verbatim>\<open>k_msgq_get\<close> waits for the next message for ever. What
  it sends while it takes the messages \<open>msgs\<close> from the queue, one after the other:
\<close>

fun main_loop :: "nat \<Rightarrow> char list list \<Rightarrow> char list option" where
  "main_loop long_bits [] = Some []"
| "main_loop long_bits (tx_buf # msgs) = do {
     out \<leftarrow> main_iteration long_bits tx_buf;
     outs \<leftarrow> main_loop long_bits msgs;
     Some (out @ outs)
   }"

text \<open>
  The redesign the specification describes, written from its words: one evaluation with
  a three-way tagged outcome, and one response for each outcome.
\<close>

datatype outcome = Success int32 | DivisionByZero | InvalidExpression

definition spec_evaluate :: "nat \<Rightarrow> char list \<Rightarrow> outcome option" where
  "spec_evaluate long_bits line = map_option
     (\<lambda>(rc, v). case rc of ERR_NONE \<Rightarrow> Success v | ERR_ZERO_DIV \<Rightarrow> DivisionByZero
        | ERR_INVALID_EXPR \<Rightarrow> InvalidExpression)
     (eval_expression long_bits line 0)"

fun spec_response :: "outcome \<Rightarrow> char list" where
  "spec_response (Success v) = ''Result: '' @ show_int (sint v) @ [CR, LF]"
| "spec_response DivisionByZero = ''Division by zero!'' @ [CR, LF]"
| "spec_response InvalidExpression = ''Invalid expression!'' @ [CR, LF]"

definition spec_iteration :: "nat \<Rightarrow> char list \<Rightarrow> char list option" where
  "spec_iteration long_bits line = map_option spec_response (spec_evaluate long_bits line)"

fun spec_loop :: "nat \<Rightarrow> char list list \<Rightarrow> char list option" where
  "spec_loop long_bits [] = Some []"
| "spec_loop long_bits (line # msgs) = do {
     out \<leftarrow> spec_iteration long_bits line;
     outs \<leftarrow> spec_loop long_bits msgs;
     Some (out @ outs)
   }"

subsection \<open>Input lines\<close>

text \<open>
  The shape of a well-formed line, for the statements about the evaluator: runs of white
  space, and signed decimal literals with the integer each one denotes.
\<close>

definition all_space :: "char list \<Rightarrow> bool" where
  "all_space w = list_all isspace w"

definition is_digits :: "char list \<Rightarrow> bool" where
  "is_digits ds = (ds \<noteq> [] \<and> list_all isdigit ds)"

definition dec_val :: "char list \<Rightarrow> int" where
  "dec_val ds = foldl (\<lambda>acc c. 10 * acc + digit_val c) 0 ds"

fun is_literal :: "char list \<Rightarrow> bool" where
  "is_literal [] = False"
| "is_literal (c # cs) = (if c = CHR ''-'' \<or> c = CHR ''+'' then is_digits cs else is_digits (c # cs))"

fun lit_val :: "char list \<Rightarrow> int" where
  "lit_val [] = 0"
| "lit_val (c # cs) =
     (if c = CHR ''-'' then - dec_val cs else if c = CHR ''+'' then dec_val cs else dec_val (c # cs))"

text \<open>
  A position where \<^verbatim>\<open>strtol\<close> finds no number once white space is skipped: the byte there
  is not a digit, and if it is a sign, the byte after it is not a digit either.
\<close>

fun no_number :: "char list \<Rightarrow> bool" where
  "no_number [] = False"
| "no_number (c # cs) =
     (\<not> isspace c \<and>
      (if c = CHR ''-'' \<or> c = CHR ''+'' then (case cs of [] \<Rightarrow> False | d # _ \<Rightarrow> \<not> isdigit d)
       else \<not> isdigit c))"

text \<open>The five operators on the integers: quotient and remainder truncate towards zero.\<close>

definition is_op :: "char \<Rightarrow> bool" where
  "is_op c = (c = CHR ''+'' \<or> c = CHR ''-'' \<or> c = CHR ''*'' \<or> c = CHR ''/'' \<or> c = CHR ''%'')"

definition int_op :: "char \<Rightarrow> int \<Rightarrow> int \<Rightarrow> int" where
  "int_op c a b =
     (if c = CHR ''+'' then a + b
      else if c = CHR ''-'' then a - b
      else if c = CHR ''*'' then a * b
      else if c = CHR ''/'' then a sdiv b
      else a smod b)"

definition in_int_range :: "int \<Rightarrow> bool" where
  "in_int_range a = (- (2 ^ 31) \<le> a \<and> a < 2 ^ 31)"

text \<open>
  The \<^verbatim>\<open>int\<close> that \<^verbatim>\<open>strtol\<close> and the assignment make of a literal: its value, replaced
  by the nearest bound of \<^verbatim>\<open>long\<close> if it is outside, then reduced to 32 bits.
\<close>

definition operand_val :: "nat \<Rightarrow> char list \<Rightarrow> int" where
  "operand_val long_bits a = sint (word_of_int (clamp_long long_bits (lit_val a)) :: int32)"

text \<open>The divisions that C leaves undefined, on the integers.\<close>

definition div_overflow :: "char \<Rightarrow> int \<Rightarrow> int \<Rightarrow> bool" where
  "div_overflow c a b = ((c = CHR ''/'' \<or> c = CHR ''%'') \<and> a = INT_MIN \<and> b = - 1)"

section \<open>Properties of the evaluator\<close>

subsection \<open>The library functions on lines of a known shape\<close>

lemma isdigit_not_space: "isdigit c \<Longrightarrow> \<not> isspace c"
  by (auto simp: isdigit_def isspace_def)

lemma isdigit_not_NUL: "isdigit c \<Longrightarrow> c \<noteq> NUL"
  by (auto simp: isdigit_def)

lemma isspace_not_NUL: "isspace c \<Longrightarrow> c \<noteq> NUL"
  by (auto simp: isspace_def)

lemma isdigit_not_sign: "isdigit c \<Longrightarrow> c \<noteq> CHR ''-'' \<and> c \<noteq> CHR ''+''"
  by (auto simp: isdigit_def)

lemma skip_space_append: "all_space w \<Longrightarrow> skip_space (w @ xs) = skip_space xs"
  by (induction w) (simp_all add: all_space_def)

lemma scan_digits_append:
  "list_all isdigit ds \<Longrightarrow> \<not> isdigit c \<Longrightarrow>
   scan_digits acc (ds @ c # cs) = Some (foldl (\<lambda>acc c. 10 * acc + digit_val c) acc ds, c # cs)"
  by (induction ds arbitrary: acc) simp_all

lemma scan_digits_dec_val:
  "is_digits ds \<Longrightarrow> \<not> isdigit c \<Longrightarrow> scan_digits 0 (ds @ c # cs) = Some (dec_val ds, c # cs)"
  by (simp add: is_digits_def dec_val_def scan_digits_append)

lemma strlen_append:
  "NUL \<notin> set xs \<Longrightarrow>
   strlen (xs @ ys) = (case strlen ys of None \<Rightarrow> None | Some n \<Rightarrow> Some (length xs + n))"
  by (induction xs) (auto split: option.splits)

lemma strlen_NUL_in: "NUL \<in> set xs \<Longrightarrow> \<exists>n. strlen xs = Some n"
  by (induction xs) auto

lemma all_space_no_NUL: "all_space w \<Longrightarrow> NUL \<notin> set w"
  by (auto simp: all_space_def list_all_iff dest: isspace_not_NUL)

lemma is_digits_no_NUL: "is_digits ds \<Longrightarrow> NUL \<notin> set ds"
  by (auto simp: is_digits_def list_all_iff dest: isdigit_not_NUL)

lemma is_literal_no_NUL: "is_literal a \<Longrightarrow> NUL \<notin> set a"
  by (cases a) (auto dest: is_digits_no_NUL split: if_splits)

lemma is_literal_not_Nil: "is_literal a \<Longrightarrow> a \<noteq> []"
  by (cases a) auto

lemma strtol_literal:
  assumes "all_space w" "is_literal a" "\<not> isdigit c"
  shows "strtol lb (w @ a @ c # cs) = Some (word_of_int (clamp_long lb (lit_val a)), c # cs)"
proof (cases a)
  case Nil
  with assms show ?thesis by simp
next
  case (Cons x xs)
  show ?thesis
  proof (cases "x = CHR ''-'' \<or> x = CHR ''+''")
    case True
    with assms Cons have d: "is_digits xs" by simp
    from True have ns: "\<not> isspace x" by (auto simp: isspace_def)
    from d have ne: "xs \<noteq> []" by (simp add: is_digits_def)
    show ?thesis
      using True ns ne assms(1,3) d Cons
      by (auto simp: strtol_def skip_space_append scan_digits_dec_val)
  next
    case False
    with assms Cons have d: "is_digits (x # xs)" by simp
    then have ns: "\<not> isspace x" by (auto simp: is_digits_def dest: isdigit_not_space)
    have sc: "scan_digits 0 (x # xs @ c # cs) = Some (dec_val (x # xs), c # cs)"
      using scan_digits_dec_val [OF d assms(3), of cs] by simp
    show ?thesis
      using False ns assms(1) Cons sc
      by (simp add: strtol_def skip_space_append)
  qed
qed


lemma strtol_literal_sp:
  assumes "all_space w" "is_literal a" "all_space w1" "w1 = [] \<longrightarrow> \<not> isdigit c"
  shows "strtol lb (w @ a @ w1 @ c # cs) = Some (word_of_int (clamp_long lb (lit_val a)), w1 @ c # cs)"
proof (cases w1)
  case Nil
  with assms show ?thesis by (simp add: strtol_literal)
next
  case (Cons x xs)
  with assms(3) have "isspace x" by (simp add: all_space_def)
  then have "\<not> isdigit x" using isdigit_not_space by blast
  then show ?thesis
    using strtol_literal [OF assms(1,2), where c = x and cs = "xs @ c # cs"] Cons by simp
qed

lemma strtol_no_number:
  assumes "all_space w" "no_number y"
  shows "strtol lb (w @ y) = Some (0, w @ y)"
proof (cases y)
  case Nil
  with assms show ?thesis by simp
next
  case (Cons x xs)
  with assms(2) have ns: "\<not> isspace x" by simp
  show ?thesis
  proof (cases "x = CHR ''-'' \<or> x = CHR ''+''")
    case True
    with assms(2) Cons obtain d ds where xs: "xs = d # ds" and nd: "\<not> isdigit d"
      by (cases xs) auto
    show ?thesis
      using True ns assms(1) Cons xs nd
      by (auto simp: strtol_def skip_space_append)
  next
    case False
    with assms(2) Cons have nd: "\<not> isdigit x" by simp
    show ?thesis
      using False ns assms(1) Cons nd
      by (simp add: strtol_def skip_space_append)
  qed
qed

lemma eval_expression_no_first:
  assumes "all_space w" "no_number y" "NUL \<in> set y"
  shows "eval_expression lb (w @ y) r = Some (ERR_INVALID_EXPR, r)"
proof -
  from assms(3) have "NUL \<in> set (w @ y)" by simp
  then obtain n where "strlen (w @ y) = Some n" using strlen_NUL_in by blast
  then show ?thesis
    using strtol_no_number [OF assms(1,2)] by (simp add: eval_expression_def)
qed

lemma eval_tail_no_second:
  assumes "all_space w" "no_number y" "NUL \<in> set y"
  shows "eval_tail lb a op (w @ y) r = Some (ERR_INVALID_EXPR, r)"
proof -
  from assms(3) have "NUL \<in> set (w @ y)" by simp
  then obtain n where "strlen (w @ y) = Some n" using strlen_NUL_in by blast
  then show ?thesis
    using strtol_no_number [OF assms(1,2)] by (simp add: eval_tail_def)
qed

lemma eval_expression_first:
  assumes "all_space w0" "is_literal a" "all_space w1" "\<not> isspace op" "w1 = [] \<longrightarrow> \<not> isdigit op"
    and "NUL \<in> set (op # expr2)"
  shows "eval_expression lb (w0 @ a @ w1 @ op # expr2) r =
         eval_tail lb (word_of_int (clamp_long lb (lit_val a))) op expr2 r"
proof -
  from assms(6) obtain n where n: "strlen (op # expr2) = Some n"
    using strlen_NUL_in by blast
  have "NUL \<notin> set w1" using assms(3) by (rule all_space_no_NUL)
  then have l1: "strlen (w1 @ op # expr2) = Some (length w1 + n)"
    using n by (simp add: strlen_append del: strlen.simps)
  have "NUL \<notin> set (w0 @ a)"
    using assms(1,2) all_space_no_NUL is_literal_no_NUL by simp
  from strlen_append [OF this, of "w1 @ op # expr2"]
  have l2: "strlen (w0 @ a @ w1 @ op # expr2) = Some (length w0 + length a + length w1 + n)"
    using l1 by (simp add: add.assoc del: strlen.simps)
  have ne: "length a \<noteq> 0" using assms(2) is_literal_not_Nil by simp
  have sk: "skip_space (w1 @ op # expr2) = Some (op # expr2)"
    using assms(3,4) by (simp add: skip_space_append)
  show ?thesis
    using strtol_literal_sp [OF assms(1,2,3,5), where cs = expr2] l1 l2 ne sk
    by (simp add: eval_expression_def eval_tail_def del: strlen.simps)
qed

lemma eval_tail_second:
  assumes "all_space w2" "is_literal b" "all_space w3" "\<not> isspace c" "w3 = [] \<longrightarrow> \<not> isdigit c"
    and "NUL \<in> set (c # rest)"
  shows "eval_tail lb A op (w2 @ b @ w3 @ c # rest) r =
         (if c \<noteq> NUL then Some (ERR_INVALID_EXPR, r)
          else perform_operation A (word_of_int (clamp_long lb (lit_val b))) op r)"
proof -
  from assms(6) obtain n where n: "strlen (c # rest) = Some n"
    using strlen_NUL_in by blast
  have "NUL \<notin> set w3" using assms(3) by (rule all_space_no_NUL)
  then have l1: "strlen (w3 @ c # rest) = Some (length w3 + n)"
    using n by (simp add: strlen_append del: strlen.simps)
  have "NUL \<notin> set (w2 @ b)"
    using assms(1,2) all_space_no_NUL is_literal_no_NUL by simp
  from strlen_append [OF this, of "w3 @ c # rest"]
  have l2: "strlen (w2 @ b @ w3 @ c # rest) = Some (length w2 + length b + length w3 + n)"
    using l1 by (simp add: add.assoc del: strlen.simps)
  have ne: "length b \<noteq> 0" using assms(2) is_literal_not_Nil by simp
  have sk: "skip_space (w3 @ c # rest) = Some (c # rest)"
    using assms(3,4) by (simp add: skip_space_append)
  show ?thesis
    using strtol_literal_sp [OF assms(1,2,3,5), where cs = rest] l1 l2 ne sk
    by (simp add: eval_tail_def del: strlen.simps)
qed

lemma eval_expression_shape:
  assumes "all_space w0" "is_literal a" "all_space w1" "\<not> isspace op" "w1 = [] \<longrightarrow> \<not> isdigit op"
    and "all_space w2" "is_literal b" "all_space w3"
  shows "eval_expression lb (w0 @ a @ w1 @ op # w2 @ b @ w3 @ NUL # rest) r =
         perform_operation (word_of_int (clamp_long lb (lit_val a)))
           (word_of_int (clamp_long lb (lit_val b))) op r"
proof -
  have nn: "\<not> isspace NUL" "\<not> isdigit NUL" by (simp_all add: isspace_def isdigit_def)
  have "eval_expression lb (w0 @ a @ w1 @ op # (w2 @ b @ w3 @ NUL # rest)) r =
        eval_tail lb (word_of_int (clamp_long lb (lit_val a))) op (w2 @ b @ w3 @ NUL # rest) r"
    using assms(1-5) by (intro eval_expression_first) simp_all
  also have "\<dots> = perform_operation (word_of_int (clamp_long lb (lit_val a)))
                 (word_of_int (clamp_long lb (lit_val b))) op r"
    using eval_tail_second [OF assms(6,7,8), where c = NUL and rest = rest] nn by simp
  finally show ?thesis .
qed

subsection \<open>Well-formed lines\<close>

lemma LONG_MIN_le_INT: "32 \<le> lb \<Longrightarrow> LONG_MIN lb \<le> - (2 ^ 31)"
proof -
  assume "32 \<le> lb"
  then have "(2::int) ^ 31 \<le> 2 ^ (lb - 1)"
    by (intro power_increasing) simp_all
  then show ?thesis by (simp add: LONG_MIN_def)
qed

lemma LONG_MAX_ge_INT: "32 \<le> lb \<Longrightarrow> 2 ^ 31 - 1 \<le> LONG_MAX lb"
proof -
  assume "32 \<le> lb"
  then have "(2::int) ^ 31 \<le> 2 ^ (lb - 1)"
    by (intro power_increasing) simp_all
  then show ?thesis by (simp add: LONG_MAX_def)
qed

lemma clamp_long_in_range: "32 \<le> lb \<Longrightarrow> in_int_range a \<Longrightarrow> clamp_long lb a = a"
  using LONG_MIN_le_INT [of lb] LONG_MAX_ge_INT [of lb]
  by (simp add: in_int_range_def clamp_long_def)

lemma clamp_long_0: "clamp_long lb 0 = 0"
proof -
  have "\<not> (2::int) ^ (lb - 1) < 1" by (simp add: linorder_not_less)
  then show ?thesis by (simp add: clamp_long_def LONG_MIN_def LONG_MAX_def)
qed

lemma sint_word_of_int_in_range: "in_int_range a \<Longrightarrow> sint (word_of_int a :: int32) = a"
  by (simp add: in_int_range_def sint_sbintrunc' signed_take_bit_int_eq_self)

lemma operand_val_in_range: "32 \<le> lb \<Longrightarrow> in_int_range (lit_val a) \<Longrightarrow> operand_val lb a = lit_val a"
  by (simp add: operand_val_def clamp_long_in_range sint_word_of_int_in_range)

lemma not_space_op: "is_op c \<Longrightarrow> \<not> isspace c"
  by (auto simp: is_op_def isspace_def)

lemma not_digit_op: "is_op c \<Longrightarrow> \<not> isdigit c"
  by (auto simp: is_op_def isdigit_def)

lemma perform_operation_valid:
  assumes "is_op op"
    and "op = CHR ''/'' \<or> op = CHR ''%'' \<longrightarrow> sint B \<noteq> 0 \<and> \<not> (sint A = INT_MIN \<and> sint B = - 1)"
  shows "perform_operation A B op r = Some (ERR_NONE, word_of_int (int_op op (sint A) (sint B)))"
  using assms
  by (auto simp: perform_operation_def is_op_def int_op_def c_div_def c_mod_def div_undefined_def)

lemma perform_operation_overflow:
  assumes "op = CHR ''/'' \<or> op = CHR ''%''" "sint A = INT_MIN" "sint B = - 1"
  shows "perform_operation A B op r = None"
  using assms
  by (auto simp: perform_operation_def c_div_def c_mod_def div_undefined_def)

lemma isdigit_digit_char: "d < 10 \<Longrightarrow> isdigit (char_of (48 + d :: nat))"
  by (simp add: isdigit_def)

lemma digit_val_digit_char: "d < 10 \<Longrightarrow> digit_val (char_of (48 + d :: nat)) = int d"
  by (simp add: digit_val_def)

lemma dec_val_snoc: "dec_val (ds @ [c]) = 10 * dec_val ds + digit_val c"
  by (simp add: dec_val_def)

lemma show_nat_digits: "is_digits (show_nat n) \<and> dec_val (show_nat n) = int n"
proof (induction n rule: show_nat.induct)
  case (1 n)
  show ?case
  proof (cases "n < 10")
    case True
    then show ?thesis
      by (subst (1 2) show_nat.simps)
        (simp add: is_digits_def dec_val_def isdigit_digit_char digit_val_digit_char)
  next
    case False
    with 1 have ih: "is_digits (show_nat (n div 10))" "dec_val (show_nat (n div 10)) = int (n div 10)"
      by simp_all
    have d: "n mod 10 < 10" by simp
    have "is_digits (show_nat (n div 10) @ [char_of (48 + n mod 10)])"
      using ih(1) isdigit_digit_char [OF d] by (simp add: is_digits_def)
    moreover have "dec_val (show_nat (n div 10) @ [char_of (48 + n mod 10)]) = int n"
      using ih(2) digit_val_digit_char [OF d] by (simp add: dec_val_snoc zdiv_int zmod_int)
    ultimately show ?thesis
      using False by (subst (1 2) show_nat.simps) simp
  qed
qed

lemma show_int_literal: "is_literal (show_int i) \<and> lit_val (show_int i) = i"
proof (cases "i < 0")
  case True
  then show ?thesis
    using show_nat_digits [of "nat (- i)"] by (simp add: show_int_def)
next
  case False
  from show_nat_digits [of "nat i"] obtain c cs where cs: "show_nat (nat i) = c # cs"
    by (cases "show_nat (nat i)") (auto simp: is_digits_def)
  with show_nat_digits [of "nat i"] have "isdigit c" by (simp add: is_digits_def)
  then have "c \<noteq> CHR ''-''" "c \<noteq> CHR ''+''" using isdigit_not_sign by blast+
  with False cs show ?thesis
    using show_nat_digits [of "nat i"] by (simp add: show_int_def)
qed

lemma eval_expression_converted:
  assumes "all_space w0" "is_literal a" "all_space w1" "is_op op"
    and "all_space w2" "is_literal b" "all_space w3"
    and "op = CHR ''/'' \<or> op = CHR ''%'' \<longrightarrow> operand_val lb b \<noteq> 0"
    and "\<not> div_overflow op (operand_val lb a) (operand_val lb b)"
  shows "eval_expression lb (w0 @ a @ w1 @ op # w2 @ b @ w3 @ NUL # rest) r =
           Some (ERR_NONE, word_of_int (int_op op (operand_val lb a) (operand_val lb b)))"
proof -
  let ?A = "word_of_int (clamp_long lb (lit_val a)) :: int32"
  let ?B = "word_of_int (clamp_long lb (lit_val b)) :: int32"
  have "eval_expression lb (w0 @ a @ w1 @ op # w2 @ b @ w3 @ NUL # rest) r =
        perform_operation ?A ?B op r"
    using assms(1-7) not_space_op not_digit_op by (intro eval_expression_shape) simp_all
  also have "\<dots> = Some (ERR_NONE, word_of_int (int_op op (sint ?A) (sint ?B)))"
    using assms(4,8,9) by (intro perform_operation_valid) (auto simp: operand_val_def div_overflow_def)
  finally show ?thesis by (simp only: operand_val_def)
qed

lemma eval_expression_valid_shape:
  assumes "all_space w0" "is_literal a" "all_space w1" "is_op op"
    and "all_space w2" "is_literal b" "all_space w3"
    and "32 \<le> lb" "in_int_range (lit_val a)" "in_int_range (lit_val b)"
    and "op = CHR ''/'' \<or> op = CHR ''%'' \<longrightarrow> lit_val b \<noteq> 0"
    and "\<not> div_overflow op (lit_val a) (lit_val b)"
  shows "eval_expression lb (w0 @ a @ w1 @ op # w2 @ b @ w3 @ NUL # rest) r =
           Some (ERR_NONE, word_of_int (int_op op (lit_val a) (lit_val b)))"
proof -
  have v: "operand_val lb a = lit_val a" "operand_val lb b = lit_val b"
    using assms(8-10) by (simp_all add: operand_val_in_range)
  from eval_expression_converted [OF assms(1-7), where lb = lb and rest = rest and r = r]
  show ?thesis using assms(11,12) by (simp add: v)
qed

lemma eval_expression_valid_printed:
  assumes "32 \<le> lb" "in_int_range x" "in_int_range y" "is_op op"
    and "op = CHR ''/'' \<or> op = CHR ''%'' \<longrightarrow> y \<noteq> 0"
    and "\<not> div_overflow op x y"
  shows "eval_expression lb (show_int x @ '' '' @ op # '' '' @ show_int y @ NUL # rest) r =
           Some (ERR_NONE, word_of_int (int_op op x y))"
proof -
  have sp: "all_space []" "all_space '' ''" by (simp_all add: all_space_def isspace_def)
  from eval_expression_valid_shape [where ?w0.0 = "[]" and a = "show_int x" and ?w1.0 = "'' ''"
      and op = op and ?w2.0 = "'' ''" and b = "show_int y" and ?w3.0 = "[]" and lb = lb
      and rest = rest and r = r]
  show ?thesis using assms sp show_int_literal [of x] show_int_literal [of y] by simp
qed

text \<open>
  Claim C1, for operands that fit an \<^verbatim>\<open>int\<close> and without the division that C leaves
  undefined. A line \<open>a op b\<close>, with white space allowed before, between and after, where \<open>a\<close> and \<open>b\<close> are signed decimal literals whose values fit an \<^verbatim>\<open>int\<close>,
  \<open>op\<close> is one of the five operators, \<open>b\<close> is not zero under \<open>/\<close> and \<open>%\<close>, and the
  line is not \<open>INT_MIN / -1\<close> or \<open>INT_MIN % -1\<close>: for every width of \<^verbatim>\<open>long\<close> from 32 bits
  on, the evaluation succeeds, whatever follows the terminating NUL in the buffer, and the
  result is the integer result of the operation (quotient and remainder truncating
  towards zero) reduced to 32 bits in two's complement; it is that integer itself when it
  fits. The second part is the same for the line made of the decimal forms of two integers
  \<open>x\<close> and \<open>y\<close>, as \<^verbatim>\<open>%d\<close> prints them, with one space on each side of the operator.
  The third part has no bound on the literals: the operation is applied to the operands as
  \<^verbatim>\<open>strtol\<close> and the assignment to an \<^verbatim>\<open>int\<close> convert them, which are \<open>a\<close> and \<open>b\<close> only
  when these fit. Nothing is said about \<open>INT_MIN / -1\<close> and \<open>INT_MIN % -1\<close>.
\<close>

theorem eval_expression_valid:
  "(all_space w0 \<and> is_literal a \<and> all_space w1 \<and> is_op op \<and>
    all_space w2 \<and> is_literal b \<and> all_space w3 \<and> 32 \<le> lb \<and>
    in_int_range (lit_val a) \<and> in_int_range (lit_val b) \<and>
    (op = CHR ''/'' \<or> op = CHR ''%'' \<longrightarrow> lit_val b \<noteq> 0) \<and>
    \<not> div_overflow op (lit_val a) (lit_val b) \<longrightarrow>
    (\<exists>v. eval_expression lb (w0 @ a @ w1 @ op # w2 @ b @ w3 @ NUL # rest) r = Some (ERR_NONE, v) \<and>
         v = word_of_int (int_op op (lit_val a) (lit_val b)) \<and>
         (in_int_range (int_op op (lit_val a) (lit_val b)) \<longrightarrow>
            sint v = int_op op (lit_val a) (lit_val b)))) \<and>
   (32 \<le> lb' \<and> in_int_range x \<and> in_int_range y \<and> is_op op' \<and>
    (op' = CHR ''/'' \<or> op' = CHR ''%'' \<longrightarrow> y \<noteq> 0) \<and> \<not> div_overflow op' x y \<longrightarrow>
    (\<exists>v. eval_expression lb' (show_int x @ '' '' @ op' # '' '' @ show_int y @ NUL # rest') r' =
           Some (ERR_NONE, v) \<and>
         v = word_of_int (int_op op' x y) \<and>
         (in_int_range (int_op op' x y) \<longrightarrow> sint v = int_op op' x y))) \<and>
   (all_space u0 \<and> is_literal c \<and> all_space u1 \<and> is_op op'' \<and>
    all_space u2 \<and> is_literal d \<and> all_space u3 \<and>
    (op'' = CHR ''/'' \<or> op'' = CHR ''%'' \<longrightarrow> operand_val lb'' d \<noteq> 0) \<and>
    \<not> div_overflow op'' (operand_val lb'' c) (operand_val lb'' d) \<longrightarrow>
    eval_expression lb'' (u0 @ c @ u1 @ op'' # u2 @ d @ u3 @ NUL # rest'') r'' =
      Some (ERR_NONE, word_of_int (int_op op'' (operand_val lb'' c) (operand_val lb'' d))))"
proof (intro conjI impI)
  assume "all_space w0 \<and> is_literal a \<and> all_space w1 \<and> is_op op \<and>
    all_space w2 \<and> is_literal b \<and> all_space w3 \<and> 32 \<le> lb \<and>
    in_int_range (lit_val a) \<and> in_int_range (lit_val b) \<and>
    (op = CHR ''/'' \<or> op = CHR ''%'' \<longrightarrow> lit_val b \<noteq> 0) \<and>
    \<not> div_overflow op (lit_val a) (lit_val b)"
  then have "eval_expression lb (w0 @ a @ w1 @ op # w2 @ b @ w3 @ NUL # rest) r =
           Some (ERR_NONE, word_of_int (int_op op (lit_val a) (lit_val b)))"
    by (intro eval_expression_valid_shape) simp_all
  then show "\<exists>v. eval_expression lb (w0 @ a @ w1 @ op # w2 @ b @ w3 @ NUL # rest) r =
           Some (ERR_NONE, v) \<and>
         v = word_of_int (int_op op (lit_val a) (lit_val b)) \<and>
         (in_int_range (int_op op (lit_val a) (lit_val b)) \<longrightarrow>
            sint v = int_op op (lit_val a) (lit_val b))"
    by (simp add: sint_word_of_int_in_range)
next
  assume "32 \<le> lb' \<and> in_int_range x \<and> in_int_range y \<and> is_op op' \<and>
    (op' = CHR ''/'' \<or> op' = CHR ''%'' \<longrightarrow> y \<noteq> 0) \<and> \<not> div_overflow op' x y"
  then have "eval_expression lb' (show_int x @ '' '' @ op' # '' '' @ show_int y @ NUL # rest') r' =
           Some (ERR_NONE, word_of_int (int_op op' x y))"
    by (intro eval_expression_valid_printed) simp_all
  then show "\<exists>v. eval_expression lb' (show_int x @ '' '' @ op' # '' '' @ show_int y @ NUL # rest') r' =
           Some (ERR_NONE, v) \<and>
         v = word_of_int (int_op op' x y) \<and>
         (in_int_range (int_op op' x y) \<longrightarrow> sint v = int_op op' x y)"
    by (simp add: sint_word_of_int_in_range)
next
  assume "all_space u0 \<and> is_literal c \<and> all_space u1 \<and> is_op op'' \<and>
    all_space u2 \<and> is_literal d \<and> all_space u3 \<and>
    (op'' = CHR ''/'' \<or> op'' = CHR ''%'' \<longrightarrow> operand_val lb'' d \<noteq> 0) \<and>
    \<not> div_overflow op'' (operand_val lb'' c) (operand_val lb'' d)"
  then show "eval_expression lb'' (u0 @ c @ u1 @ op'' # u2 @ d @ u3 @ NUL # rest'') r'' =
      Some (ERR_NONE, word_of_int (int_op op'' (operand_val lb'' c) (operand_val lb'' d)))"
    by (intro eval_expression_converted) simp_all
qed

text \<open>The definitions that evaluate \<open>eval_expression\<close> on a given line.\<close>

lemmas eval_defs = eval_expression_def strtol_def isspace_def isdigit_def digit_val_def
  clamp_long_def LONG_MAX_def LONG_MIN_def perform_operation_def c_div_def c_mod_def
  div_undefined_def INT_MIN_def

theorem eval_expression_valid_witness:
  "eval_expression 32 (''-7 / 2'' @ [NUL]) 0 = Some (ERR_NONE, word_of_int (- 3)) \<and>
   eval_expression 64 ('' -7%2 '' @ [NUL]) 0 = Some (ERR_NONE, word_of_int (- 1)) \<and>
   eval_expression 32 (''2147483647 + 1'' @ [NUL]) 0 = Some (ERR_NONE, word_of_int 2147483648) \<and>
   sint (word_of_int 2147483648 :: int32) = - 2147483648 \<and>
   eval_expression 64 (''6 * -7'' @ [NUL]) 0 = Some (ERR_NONE, word_of_int (- 42)) \<and>
   sint (word_of_int (- 42) :: int32) = - 42 \<and>
   eval_expression 32 (''3000000000 - 1'' @ [NUL]) 0 = Some (ERR_NONE, word_of_int 2147483646) \<and>
   eval_expression 64 (''3000000000 - 1'' @ [NUL]) 0 = Some (ERR_NONE, word_of_int (- 1294967297))"
proof -
  have s: "show_int 2147483647 = ''2147483647''" "show_int 1 = ''1''"
    "show_int 6 = ''6''" "show_int (- 7) = ''-7''"
    by (simp_all add: show_int_def show_nat.simps char_of_eq_iff)
  have r: "in_int_range 2147483647" "in_int_range 1" "in_int_range 6" "in_int_range (- 7)"
    "in_int_range (- 42)"
    by (simp_all add: in_int_range_def)
  have o: "is_op (CHR ''+'')" "is_op (CHR ''*'')" by (simp_all add: is_op_def)
  have v: "operand_val 32 ''3000000000'' = 2147483647" "operand_val 64 ''3000000000'' = - 1294967296"
    "operand_val 32 ''1'' = 1" "operand_val 64 ''1'' = 1"
    by (simp_all add: operand_val_def clamp_long_def LONG_MAX_def LONG_MIN_def dec_val_def
        digit_val_def)
  have a: "eval_expression 32 (''-7 / 2'' @ [NUL]) 0 = Some (ERR_NONE, word_of_int (- 3))"
    using eval_expression_valid [where ?w0.0 = "[]" and a = "''-7''"
        and ?w1.0 = "'' ''" and op = "CHR ''/''" and ?w2.0 = "'' ''" and b = "''2''"
        and ?w3.0 = "[]" and rest = "[]" and r = 0 and lb = 32, THEN conjunct1]
    by (simp add: all_space_def isspace_def isdigit_def is_digits_def is_op_def dec_val_def
        digit_val_def in_int_range_def int_op_def div_overflow_def)
  have b: "eval_expression 64 ('' -7%2 '' @ [NUL]) 0 = Some (ERR_NONE, word_of_int (- 1))"
    using eval_expression_valid [where ?w0.0 = "'' ''" and a = "''-7''"
        and ?w1.0 = "[]" and op = "CHR ''%''" and ?w2.0 = "[]" and b = "''2''"
        and ?w3.0 = "'' ''" and rest = "[]" and r = 0 and lb = 64, THEN conjunct1]
    by (simp add: all_space_def isspace_def isdigit_def is_digits_def is_op_def dec_val_def
        digit_val_def in_int_range_def int_op_def div_overflow_def)
  have c: "eval_expression 32 (''2147483647 + 1'' @ [NUL]) 0 = Some (ERR_NONE, word_of_int 2147483648)"
    using eval_expression_valid [where x = 2147483647 and y = 1 and lb' = 32
        and op' = "CHR ''+''" and rest' = "[]" and r' = 0, THEN conjunct2, THEN conjunct1] r o
    by (simp add: s int_op_def div_overflow_def)
  have d: "eval_expression 64 (''6 * -7'' @ [NUL]) 0 = Some (ERR_NONE, word_of_int (- 42)) \<and>
      sint (word_of_int (- 42) :: int32) = - 42"
    using eval_expression_valid [where x = 6 and y = "- 7" and lb' = 64
        and op' = "CHR ''*''" and rest' = "[]" and r' = 0, THEN conjunct2, THEN conjunct1] r o
    by (simp add: s int_op_def div_overflow_def)
  have e: "sint (word_of_int 2147483648 :: int32) = - 2147483648" by simp
  have f: "eval_expression 32 (''3000000000 - 1'' @ [NUL]) 0 = Some (ERR_NONE, word_of_int 2147483646)"
    using eval_expression_valid [where ?u0.0 = "[]" and c = "''3000000000''"
        and ?u1.0 = "'' ''" and op'' = "CHR ''-''" and ?u2.0 = "'' ''" and d = "''1''"
        and ?u3.0 = "[]" and rest'' = "[]" and r'' = 0 and lb'' = 32, THEN conjunct2, THEN conjunct2]
    by (simp add: all_space_def isspace_def isdigit_def is_digits_def is_op_def
        int_op_def div_overflow_def v)
  have g: "eval_expression 64 (''3000000000 - 1'' @ [NUL]) 0 = Some (ERR_NONE, word_of_int (- 1294967297))"
    using eval_expression_valid [where ?u0.0 = "[]" and c = "''3000000000''"
        and ?u1.0 = "'' ''" and op'' = "CHR ''-''" and ?u2.0 = "'' ''" and d = "''1''"
        and ?u3.0 = "[]" and rest'' = "[]" and r'' = 0 and lb'' = 64, THEN conjunct2, THEN conjunct2]
    by (simp add: all_space_def isspace_def isdigit_def is_digits_def is_op_def
        int_op_def div_overflow_def v)
  from a b c d e f g show ?thesis by simp
qed

text \<open>
  The claim as the specification states it, for all integers \<open>a\<close> and \<open>b\<close>, fails at
  two kinds of lines. An operand that does not fit a \<^verbatim>\<open>long\<close> is replaced by the nearest
  bound: \<open>99999999999999999999 + 0\<close> gives 2147483647 with a \<^verbatim>\<open>long\<close> of 32 bits and -1 with
  one of 64 bits, and neither is the sum reduced to 32 bits, 1661992959. And the line
  \<open>-2147483648 / -1\<close>, whose operands fit and whose divisor is not zero, passes the test
  \<^verbatim>\<open>operand2 != 0\<close> and reaches a division that C does not define; so does the same line
  with \<open>%\<close>.
\<close>

theorem eval_expression_valid_counterexample:
  "is_literal ''99999999999999999999'' \<and> is_literal ''0'' \<and> is_op (CHR ''+'') \<and>
   eval_expression 32 (''99999999999999999999 + 0'' @ [NUL]) 0 = Some (ERR_NONE, 2147483647) \<and>
   eval_expression 64 (''99999999999999999999 + 0'' @ [NUL]) 0 = Some (ERR_NONE, - 1) \<and>
   (word_of_int (int_op (CHR ''+'') (lit_val ''99999999999999999999'') (lit_val ''0'')) :: int32) =
     1661992959 \<and>
   (1661992959 :: int32) \<noteq> 2147483647 \<and> (1661992959 :: int32) \<noteq> - 1 \<and>
   eval_expression 32 (''99999999999999999999 + 0'' @ [NUL]) 0 \<noteq>
     Some (ERR_NONE, word_of_int (int_op (CHR ''+'') (lit_val ''99999999999999999999'') (lit_val ''0''))) \<and>
   eval_expression 64 (''99999999999999999999 + 0'' @ [NUL]) 0 \<noteq>
     Some (ERR_NONE, word_of_int (int_op (CHR ''+'') (lit_val ''99999999999999999999'') (lit_val ''0''))) \<and>
   is_literal ''-2147483648'' \<and> is_literal ''-1'' \<and> is_op (CHR ''/'') \<and> is_op (CHR ''%'') \<and>
   lit_val ''-1'' \<noteq> 0 \<and> in_int_range (lit_val ''-2147483648'') \<and> in_int_range (lit_val ''-1'') \<and>
   eval_expression 32 (''-2147483648 / -1'' @ [NUL]) 0 = None \<and>
   eval_expression 64 (''-2147483648 / -1'' @ [NUL]) 0 = None \<and>
   eval_expression 32 (''-2147483648 % -1'' @ [NUL]) 0 = None \<and>
   eval_expression 64 (''-2147483648 % -1'' @ [NUL]) 0 = None"
proof -
  have l: "is_literal ''99999999999999999999''" "is_literal ''0''" "is_op (CHR ''+'')"
    "is_literal ''-2147483648''" "is_literal ''-1''" "is_op (CHR ''/'')" "is_op (CHR ''%'')"
    by (simp_all add: is_digits_def isdigit_def is_op_def)
  have v: "lit_val ''-1'' \<noteq> 0" "in_int_range (lit_val ''-2147483648'')" "in_int_range (lit_val ''-1'')"
    "(word_of_int (int_op (CHR ''+'') (lit_val ''99999999999999999999'') (lit_val ''0'')) :: int32) =
     1661992959"
    by (simp_all add: in_int_range_def dec_val_def digit_val_def int_op_def)
  have n: "(1661992959 :: int32) \<noteq> 2147483647" "(1661992959 :: int32) \<noteq> - 1"
    by simp_all
  have a: "eval_expression 32 (''99999999999999999999 + 0'' @ [NUL]) 0 = Some (ERR_NONE, 2147483647)"
    "eval_expression 64 (''99999999999999999999 + 0'' @ [NUL]) 0 = Some (ERR_NONE, - 1)"
    by (simp_all add: eval_defs)
  have b: "eval_expression 32 (''-2147483648 / -1'' @ [NUL]) 0 = None"
    "eval_expression 64 (''-2147483648 / -1'' @ [NUL]) 0 = None"
    "eval_expression 32 (''-2147483648 % -1'' @ [NUL]) 0 = None"
    "eval_expression 64 (''-2147483648 % -1'' @ [NUL]) 0 = None"
    by (simp_all add: eval_defs)
  have d: "eval_expression 32 (''99999999999999999999 + 0'' @ [NUL]) 0 \<noteq>
     Some (ERR_NONE, word_of_int (int_op (CHR ''+'') (lit_val ''99999999999999999999'') (lit_val ''0'')))"
    "eval_expression 64 (''99999999999999999999 + 0'' @ [NUL]) 0 \<noteq>
     Some (ERR_NONE, word_of_int (int_op (CHR ''+'') (lit_val ''99999999999999999999'') (lit_val ''0'')))"
    using n by (simp_all only: a v(4) option.inject prod.inject) simp_all
  from l v n a d b show ?thesis by (intro conjI)
qed

text \<open>
  Claim C2. A line of two literals joined by \<open>/\<close> or \<open>%\<close> whose second literal denotes 0
  fails with the division-by-zero error (and so not with the invalid-expression error),
  and \<^verbatim>\<open>*result\<close> keeps its value, for every width of \<^verbatim>\<open>long\<close>.
\<close>

theorem eval_expression_zero_div:
  assumes "all_space w0" "is_literal a" "all_space w1"
    and "op = CHR ''/'' \<or> op = CHR ''%''"
    and "all_space w2" "is_literal b" "all_space w3"
    and "lit_val b = 0"
  shows "eval_expression lb (w0 @ a @ w1 @ op # w2 @ b @ w3 @ NUL # rest) r = Some (ERR_ZERO_DIV, r)"
proof -
  from assms(4) have "\<not> isspace op" "\<not> isdigit op"
    by (auto simp: isspace_def isdigit_def)
  then have "eval_expression lb (w0 @ a @ w1 @ op # w2 @ b @ w3 @ NUL # rest) r =
        perform_operation (word_of_int (clamp_long lb (lit_val a)))
          (word_of_int (clamp_long lb (lit_val b))) op r"
    using assms(1-3,5-7) by (intro eval_expression_shape) simp_all
  also have "\<dots> = Some (ERR_ZERO_DIV, r)"
    using assms(4,8) by (auto simp: perform_operation_def clamp_long_0)
  finally show ?thesis .
qed

theorem eval_expression_zero_div_witness:
  "eval_expression 32 (''5 / 0'' @ [NUL]) 7 = Some (ERR_ZERO_DIV, 7) \<and>
   eval_expression 32 (''5 % 0'' @ [NUL]) 7 = Some (ERR_ZERO_DIV, 7) \<and>
   eval_expression 64 (''5 / 0'' @ [NUL]) 7 = Some (ERR_ZERO_DIV, 7) \<and>
   eval_expression 64 (''5 % 0'' @ [NUL]) 7 = Some (ERR_ZERO_DIV, 7)"
proof -
  have h: "is_literal ''5''" "is_literal ''0''" "all_space []" "all_space '' ''" "lit_val ''0'' = 0"
    by (simp_all add: is_digits_def isdigit_def all_space_def isspace_def dec_val_def digit_val_def)
  have "CHR ''/'' = CHR ''/'' \<or> CHR ''/'' = CHR ''%''" "CHR ''%'' = CHR ''/'' \<or> CHR ''%'' = CHR ''%''"
    by simp_all
  from eval_expression_zero_div [OF h(3,1,4) this(1) h(4,2,3,5), where rest = "[]" and r = 7 and lb = 32]
       eval_expression_zero_div [OF h(3,1,4) this(2) h(4,2,3,5), where rest = "[]" and r = 7 and lb = 32]
       eval_expression_zero_div [OF h(3,1,4) this(1) h(4,2,3,5), where rest = "[]" and r = 7 and lb = 64]
       eval_expression_zero_div [OF h(3,1,4) this(2) h(4,2,3,5), where rest = "[]" and r = 7 and lb = 64]
  show ?thesis by simp
qed

lemma perform_operation_NUL: "perform_operation x y NUL r = Some (ERR_INVALID_EXPR, r)"
  by (simp add: perform_operation_def)

lemma eval_tail_NUL_operator:
  "eval_tail lb A NUL expr2 r = None \<or> eval_tail lb A NUL expr2 r = Some (ERR_INVALID_EXPR, r)"
  by (auto simp: eval_tail_def perform_operation_NUL split: bind_splits prod.splits)

text \<open>
  Claim C4. A line that ends after the first operand (white space may follow it): the
  operator step takes the terminating NUL as the operator and steps over it, and the second
  \<^verbatim>\<open>strtol\<close> reads the bytes after the end of the string. When the NUL is the last byte
  of the buffer, that is a read outside the buffer. When bytes follow it, the call either
  reads outside the buffer further on or fails with the invalid-expression error; it never
  succeeds. With the NUL as operator \<^verbatim>\<open>perform_operation\<close> does not divide, so \<open>None\<close> is
  a read outside the buffer here and nothing else. The witness has the line \<open>5\<close> in a
  buffer of its size, the 31-byte line of \<open>5\<close> and 30 spaces, which fills a whole message
  of \<^verbatim>\<open>MSG_SIZE\<close> bytes, and the line \<open>5\<close> followed by bytes left over from an earlier line.
\<close>

theorem eval_expression_no_operator:
  assumes "all_space w0" "is_literal a" "all_space w1"
  shows "eval_expression lb (w0 @ a @ w1 @ [NUL]) r = None \<and>
         (eval_expression lb (w0 @ a @ w1 @ NUL # rest) r = None \<or>
          eval_expression lb (w0 @ a @ w1 @ NUL # rest) r = Some (ERR_INVALID_EXPR, r)) \<and>
         perform_operation x y NUL r = Some (ERR_INVALID_EXPR, r)"
proof -
  have e: "eval_expression lb (w0 @ a @ w1 @ NUL # tl) r =
      eval_tail lb (word_of_int (clamp_long lb (lit_val a))) NUL tl r" for tl
    using assms by (intro eval_expression_first) (simp_all add: isspace_def isdigit_def)
  have "eval_expression lb (w0 @ a @ w1 @ [NUL]) r = None"
    using e [of "[]"] by (simp add: eval_tail_def strtol_def)
  moreover have "eval_expression lb (w0 @ a @ w1 @ NUL # rest) r = None \<or>
      eval_expression lb (w0 @ a @ w1 @ NUL # rest) r = Some (ERR_INVALID_EXPR, r)"
    using e [of rest] eval_tail_NUL_operator [where ?expr2.0 = rest and r = r] by simp
  ultimately show ?thesis by (simp add: perform_operation_NUL)
qed

theorem eval_expression_no_operator_witness:
  "eval_expression 32 (''5'' @ [NUL]) 0 = None \<and>
   eval_expression 32 (''5'' @ replicate 30 (CHR '' '') @ [NUL]) 0 = None \<and>
   length (''5'' @ replicate 30 (CHR '' '') @ [NUL]) = MSG_SIZE \<and>
   eval_expression 32 (''5'' @ [NUL] @ ''+3'' @ [NUL]) 0 = Some (ERR_INVALID_EXPR, 0)"
proof -
  have h: "all_space []" "is_literal ''5''" "all_space (replicate 30 (CHR '' ''))"
    by (simp_all add: is_digits_def isdigit_def all_space_def isspace_def list_all_iff)
  have "eval_expression 32 (''5'' @ [NUL] @ ''+3'' @ [NUL]) 0 \<noteq> None"
    by (simp add: eval_defs)
  with eval_expression_no_operator [OF h(1,2,1), where r = 0 and rest = "''+3'' @ [NUL]" and lb = 32]
    eval_expression_no_operator [OF h(1,2,3), where r = 0 and rest = "[]" and lb = 32]
  show ?thesis by (auto simp: MSG_SIZE_def)
qed

lemma perform_operation_error_result:
  "perform_operation A B op r = Some (rc, r') \<Longrightarrow> rc \<noteq> ERR_NONE \<Longrightarrow> r' = r"
  by (auto simp: perform_operation_def split: if_splits bind_splits)

lemma eval_expression_error_result:
  "eval_expression lb expr r = Some (rc, r') \<Longrightarrow> rc \<noteq> ERR_NONE \<Longrightarrow> r' = r"
  by (auto simp: eval_expression_def split: bind_splits if_splits prod.splits
      dest: perform_operation_error_result)

text \<open>
  Claim C10. When \<^verbatim>\<open>eval_expression\<close> returns a nonzero code, \<^verbatim>\<open>*result\<close> has the value it
  had before the call.
\<close>

theorem eval_expression_error_atomic:
  assumes "eval_expression lb expr r = Some (rc, r')" "err_code rc \<noteq> 0"
  shows "r' = r"
proof -
  from assms(2) have "rc \<noteq> ERR_NONE" by (cases rc) simp_all
  with assms(1) show ?thesis by (rule eval_expression_error_result)
qed

theorem eval_expression_error_atomic_witness:
  "eval_expression 32 (''5 / 0'' @ [NUL]) 7 = Some (ERR_ZERO_DIV, 7) \<and> err_code ERR_ZERO_DIV \<noteq> 0 \<and>
   (7 :: int32) = 7"
proof -
  have e: "eval_expression 32 (''5 / 0'' @ [NUL]) 7 = Some (ERR_ZERO_DIV, 7)"
    by (simp add: eval_defs)
  have c: "err_code ERR_ZERO_DIV \<noteq> 0" by simp
  from eval_expression_error_atomic [OF e c] e c show ?thesis by simp
qed

lemma eval_expression_space_free:
  assumes "all_space w0" "all_space w1" "all_space w2" "all_space w3"
    and "is_literal a" "is_literal b" "\<not> isspace op" "\<not> isdigit op"
  shows "eval_expression lb (w0 @ a @ w1 @ op # w2 @ b @ w3 @ NUL # rest) r =
         eval_expression lb (a @ op # b @ [NUL]) r"
proof -
  have e: "all_space []" by (simp add: all_space_def)
  have "eval_expression lb (w0 @ a @ w1 @ op # w2 @ b @ w3 @ NUL # rest) r =
        perform_operation (word_of_int (clamp_long lb (lit_val a)))
          (word_of_int (clamp_long lb (lit_val b))) op r"
    using assms by (intro eval_expression_shape) simp_all
  moreover have "eval_expression lb ([] @ a @ [] @ op # [] @ b @ [] @ NUL # []) r =
        perform_operation (word_of_int (clamp_long lb (lit_val a)))
          (word_of_int (clamp_long lb (lit_val b))) op r"
    using assms e by (intro eval_expression_shape) simp_all
  ultimately show ?thesis by simp
qed

lemma eval_expression_5_plus_3:
  assumes "all_space w0" "all_space w1" "all_space w2" "all_space w3" "32 \<le> lb"
  shows "eval_expression lb (w0 @ ''5'' @ w1 @ ''+'' @ w2 @ ''3'' @ w3 @ NUL # rest) r =
         Some (ERR_NONE, 8)"
proof -
  have l: "is_literal ''5''" "is_literal ''3''" "is_op (CHR ''+'')"
    "in_int_range (lit_val ''5'')" "in_int_range (lit_val ''3'')"
    by (simp_all add: is_digits_def isdigit_def is_op_def in_int_range_def dec_val_def digit_val_def)
  have "eval_expression lb (w0 @ ''5'' @ w1 @ CHR ''+'' # w2 @ ''3'' @ w3 @ NUL # rest) r =
      Some (ERR_NONE, word_of_int (int_op (CHR ''+'') (lit_val ''5'') (lit_val ''3'')))"
    using assms l by (intro eval_expression_valid_shape) (simp_all add: div_overflow_def)
  then show ?thesis by (simp add: int_op_def dec_val_def digit_val_def)
qed

text \<open>
  Claim C8. White space before the first operand, on both sides of the operator byte and
  after the second operand changes nothing: for any two literals and any operator byte
  that is neither white space nor a digit, the line with white space has the result of
  the line without, be it a value, an error or undefined. So \<open>5\<close>, \<open>+\<close> and \<open>3\<close> with any
  white space around them evaluate to 8 with success, and so do the three lines of the
  specification, \<open>5+3\<close>, \<open> 5 + 3 \<close> and \<open>5   +   3\<close>, whatever follows the terminating NUL.
\<close>

theorem eval_expression_whitespace:
  "(all_space w0 \<and> all_space w1 \<and> all_space w2 \<and> all_space w3 \<and>
    is_literal a \<and> is_literal b \<and> \<not> isspace op \<and> \<not> isdigit op \<longrightarrow>
      eval_expression lb (w0 @ a @ w1 @ op # w2 @ b @ w3 @ NUL # rest) r =
      eval_expression lb (a @ op # b @ [NUL]) r) \<and>
   (all_space u0 \<and> all_space u1 \<and> all_space u2 \<and> all_space u3 \<and> 32 \<le> lb' \<longrightarrow>
      eval_expression lb' (u0 @ ''5'' @ u1 @ ''+'' @ u2 @ ''3'' @ u3 @ NUL # rest') r' =
      Some (ERR_NONE, 8)) \<and>
   (32 \<le> lb'' \<longrightarrow>
      eval_expression lb'' (''5+3'' @ NUL # rest'') r'' = Some (ERR_NONE, 8) \<and>
      eval_expression lb'' ('' 5 + 3 '' @ NUL # rest'') r'' = Some (ERR_NONE, 8) \<and>
      eval_expression lb'' (''5   +   3'' @ NUL # rest'') r'' = Some (ERR_NONE, 8))"
proof (intro conjI impI)
  assume "all_space w0 \<and> all_space w1 \<and> all_space w2 \<and> all_space w3 \<and>
    is_literal a \<and> is_literal b \<and> \<not> isspace op \<and> \<not> isdigit op"
  then show "eval_expression lb (w0 @ a @ w1 @ op # w2 @ b @ w3 @ NUL # rest) r =
      eval_expression lb (a @ op # b @ [NUL]) r"
    by (intro eval_expression_space_free) simp_all
next
  assume "all_space u0 \<and> all_space u1 \<and> all_space u2 \<and> all_space u3 \<and> 32 \<le> lb'"
  then show "eval_expression lb' (u0 @ ''5'' @ u1 @ ''+'' @ u2 @ ''3'' @ u3 @ NUL # rest') r' =
      Some (ERR_NONE, 8)"
    by (intro eval_expression_5_plus_3) simp_all
next
  assume lb: "32 \<le> lb''"
  have s: "all_space []" "all_space '' ''" "all_space ''   ''"
    by (simp_all add: all_space_def isspace_def)
  show "eval_expression lb'' (''5+3'' @ NUL # rest'') r'' = Some (ERR_NONE, 8)"
    using eval_expression_5_plus_3 [OF s(1,1,1,1) lb, of rest'' r''] by simp
  show "eval_expression lb'' ('' 5 + 3 '' @ NUL # rest'') r'' = Some (ERR_NONE, 8)"
    using eval_expression_5_plus_3 [OF s(2,2,2,2) lb, of rest'' r''] by simp
  show "eval_expression lb'' (''5   +   3'' @ NUL # rest'') r'' = Some (ERR_NONE, 8)"
    using eval_expression_5_plus_3 [OF s(1,3,3,1) lb, of rest'' r''] by simp
qed

theorem eval_expression_whitespace_witness:
  "eval_expression 32 (''5+3'' @ [NUL]) 0 = Some (ERR_NONE, 8) \<and>
   eval_expression 32 ('' 5 + 3 '' @ [NUL]) 0 = Some (ERR_NONE, 8) \<and>
   eval_expression 32 (''5   +   3'' @ [NUL]) 0 = Some (ERR_NONE, 8) \<and>
   eval_expression 64 ([CHR 0x09, CHR '' ''] @ ''5'' @ [CHR 0x0B] @ ''+'' @ [CHR 0x0C, CR] @ ''3'' @
      [LF, CHR '' ''] @ [NUL]) 0 = Some (ERR_NONE, 8) \<and>
   eval_expression 32 ([CHR 0x09] @ ''-12'' @ ''  '' @ ''*'' @ [CHR 0x09] @ ''+4'' @ '' '' @ [NUL]) 0 =
     eval_expression 32 (''-12*+4'' @ [NUL]) 0 \<and>
   eval_expression 32 (''-12*+4'' @ [NUL]) 0 = Some (ERR_NONE, - 48)"
proof -
  have a: "eval_expression 32 (''5+3'' @ [NUL]) 0 = Some (ERR_NONE, 8) \<and>
   eval_expression 32 ('' 5 + 3 '' @ [NUL]) 0 = Some (ERR_NONE, 8) \<and>
   eval_expression 32 (''5   +   3'' @ [NUL]) 0 = Some (ERR_NONE, 8)"
    using eval_expression_whitespace [where lb'' = 32 and rest'' = "[]" and r'' = 0,
        THEN conjunct2, THEN conjunct2]
    by simp
  have b: "eval_expression 64 ([CHR 0x09, CHR '' ''] @ ''5'' @ [CHR 0x0B] @ ''+'' @ [CHR 0x0C, CR] @
      ''3'' @ [LF, CHR '' ''] @ [NUL]) 0 = Some (ERR_NONE, 8)"
    using eval_expression_whitespace [where lb' = 64 and ?u0.0 = "[CHR 0x09, CHR '' '']"
        and ?u1.0 = "[CHR 0x0B]" and ?u2.0 = "[CHR 0x0C, CR]" and ?u3.0 = "[LF, CHR '' '']"
        and rest' = "[]" and r' = 0, THEN conjunct2, THEN conjunct1]
    by (simp add: all_space_def isspace_def)
  have c: "eval_expression 32 ([CHR 0x09] @ ''-12'' @ ''  '' @ ''*'' @ [CHR 0x09] @ ''+4'' @ '' '' @
      [NUL]) 0 = eval_expression 32 (''-12*+4'' @ [NUL]) 0"
    using eval_expression_whitespace [where lb = 32 and ?w0.0 = "[CHR 0x09]" and a = "''-12''"
        and ?w1.0 = "''  ''" and op = "CHR ''*''" and ?w2.0 = "[CHR 0x09]" and b = "''+4''"
        and ?w3.0 = "'' ''" and rest = "[]" and r = 0, THEN conjunct1]
    by (simp add: all_space_def isspace_def isdigit_def is_digits_def)
  have d: "eval_expression 32 (''-12*+4'' @ [NUL]) 0 = Some (ERR_NONE, - 48)"
    by (simp add: eval_defs)
  from a b c d show ?thesis by simp
qed

subsection \<open>Malformed lines\<close>

text \<open>
  Claim C3. \<^verbatim>\<open>eval_expression\<close> fails with the invalid-expression error, and leaves
  \<^verbatim>\<open>*result\<close> alone, in each of four cases: there is no number where the first operand
  should be; there is a first operand and an operator byte, and no number where the second
  operand should be; both operands are there and the byte between them is none of the
  five operators; both operands and the operator byte are there and a byte that is
  neither white space nor the NUL follows the second operand. In every case the buffer
  holds a NUL at or after the place in question. The witness runs the four lines of the
  specification: \<open>abc + 1\<close>, \<open>5 + \<close>, \<open>5 ^ 3\<close>, \<open>5 + 3 garbage\<close>.
\<close>

theorem eval_expression_invalid:
  "(all_space w \<and> no_number y \<and> NUL \<in> set y \<longrightarrow>
      eval_expression lb (w @ y) r = Some (ERR_INVALID_EXPR, r)) \<and>
   (all_space w0 \<and> is_literal a \<and> all_space w1 \<and> \<not> isspace op \<and> (w1 = [] \<longrightarrow> \<not> isdigit op) \<and>
    all_space w2 \<and> no_number y \<and> NUL \<in> set y \<longrightarrow>
      eval_expression lb (w0 @ a @ w1 @ op # w2 @ y) r = Some (ERR_INVALID_EXPR, r)) \<and>
   (all_space w0 \<and> is_literal a \<and> all_space w1 \<and> \<not> isspace op \<and> (w1 = [] \<longrightarrow> \<not> isdigit op) \<and>
    all_space w2 \<and> is_literal b \<and> all_space w3 \<and> \<not> is_op op \<longrightarrow>
      eval_expression lb (w0 @ a @ w1 @ op # w2 @ b @ w3 @ NUL # rest) r = Some (ERR_INVALID_EXPR, r)) \<and>
   (all_space w0 \<and> is_literal a \<and> all_space w1 \<and> \<not> isspace op \<and> (w1 = [] \<longrightarrow> \<not> isdigit op) \<and>
    all_space w2 \<and> is_literal b \<and> all_space w3 \<and>
    c \<noteq> NUL \<and> \<not> isspace c \<and> (w3 = [] \<longrightarrow> \<not> isdigit c) \<and> NUL \<in> set rest \<longrightarrow>
      eval_expression lb (w0 @ a @ w1 @ op # w2 @ b @ w3 @ c # rest) r = Some (ERR_INVALID_EXPR, r))"
proof (intro conjI impI)
  assume "all_space w \<and> no_number y \<and> NUL \<in> set y"
  then show "eval_expression lb (w @ y) r = Some (ERR_INVALID_EXPR, r)"
    by (simp add: eval_expression_no_first)
next
  assume h: "all_space w0 \<and> is_literal a \<and> all_space w1 \<and> \<not> isspace op \<and>
    (w1 = [] \<longrightarrow> \<not> isdigit op) \<and> all_space w2 \<and> no_number y \<and> NUL \<in> set y"
  then have "eval_expression lb (w0 @ a @ w1 @ op # (w2 @ y)) r =
      eval_tail lb (word_of_int (clamp_long lb (lit_val a))) op (w2 @ y) r"
    by (intro eval_expression_first) simp_all
  also have "\<dots> = Some (ERR_INVALID_EXPR, r)"
    using h by (simp add: eval_tail_no_second)
  finally show "eval_expression lb (w0 @ a @ w1 @ op # w2 @ y) r = Some (ERR_INVALID_EXPR, r)" .
next
  assume h: "all_space w0 \<and> is_literal a \<and> all_space w1 \<and> \<not> isspace op \<and>
    (w1 = [] \<longrightarrow> \<not> isdigit op) \<and> all_space w2 \<and> is_literal b \<and> all_space w3 \<and> \<not> is_op op"
  then have "eval_expression lb (w0 @ a @ w1 @ op # w2 @ b @ w3 @ NUL # rest) r =
      perform_operation (word_of_int (clamp_long lb (lit_val a)))
        (word_of_int (clamp_long lb (lit_val b))) op r"
    by (intro eval_expression_shape) simp_all
  also have "\<dots> = Some (ERR_INVALID_EXPR, r)"
    using h by (simp add: perform_operation_def is_op_def)
  finally show "eval_expression lb (w0 @ a @ w1 @ op # w2 @ b @ w3 @ NUL # rest) r =
      Some (ERR_INVALID_EXPR, r)" .
next
  assume h: "all_space w0 \<and> is_literal a \<and> all_space w1 \<and> \<not> isspace op \<and>
    (w1 = [] \<longrightarrow> \<not> isdigit op) \<and> all_space w2 \<and> is_literal b \<and> all_space w3 \<and>
    c \<noteq> NUL \<and> \<not> isspace c \<and> (w3 = [] \<longrightarrow> \<not> isdigit c) \<and> NUL \<in> set rest"
  then have "eval_expression lb (w0 @ a @ w1 @ op # (w2 @ b @ w3 @ c # rest)) r =
      eval_tail lb (word_of_int (clamp_long lb (lit_val a))) op (w2 @ b @ w3 @ c # rest) r"
    by (intro eval_expression_first) simp_all
  also have "\<dots> = Some (ERR_INVALID_EXPR, r)"
    using h eval_tail_second [where ?w2.0 = w2 and b = b and ?w3.0 = w3 and c = c and rest = rest]
    by simp
  finally show "eval_expression lb (w0 @ a @ w1 @ op # w2 @ b @ w3 @ c # rest) r =
      Some (ERR_INVALID_EXPR, r)" .
qed

theorem eval_expression_invalid_witness:
  "eval_expression 32 (''abc + 1'' @ [NUL]) 0 = Some (ERR_INVALID_EXPR, 0) \<and>
   eval_expression 32 (''5 + '' @ [NUL]) 0 = Some (ERR_INVALID_EXPR, 0) \<and>
   eval_expression 32 (''5 ^ 3'' @ [NUL]) 0 = Some (ERR_INVALID_EXPR, 0) \<and>
   eval_expression 32 (''5 + 3 garbage'' @ [NUL]) 0 = Some (ERR_INVALID_EXPR, 0)"
  using
    eval_expression_invalid [where w = "[]" and y = "''abc + 1'' @ [NUL]" and r = 0 and lb = 32
      and ?w0.0 = "[]" and a = "''5''" and ?w1.0 = "'' ''" and op = "CHR ''+''" and ?w2.0 = "'' ''"
      and b = "''3''" and ?w3.0 = "'' ''" and c = "CHR ''g''" and rest = "''arbage'' @ [NUL]"]
    eval_expression_invalid [where w = "[]" and y = "[NUL]" and r = 0 and lb = 32
      and ?w0.0 = "[]" and a = "''5''" and ?w1.0 = "'' ''" and op = "CHR ''+''" and ?w2.0 = "'' ''"
      and b = "''3''" and ?w3.0 = "[]" and c = "CHR ''g''" and rest = "[NUL]"]
    eval_expression_invalid [where w = "[]" and y = "[NUL]" and r = 0 and lb = 32
      and ?w0.0 = "[]" and a = "''5''" and ?w1.0 = "'' ''" and op = "CHR ''^''" and ?w2.0 = "'' ''"
      and b = "''3''" and ?w3.0 = "[]" and c = "CHR ''g''" and rest = "[]"]
  by (simp add: all_space_def isspace_def isdigit_def is_digits_def is_op_def)

section \<open>Properties of the receive callback\<close>

lemma serial_cb_single: "serial_cb True True [c] s = serial_cb_byte c s"
  by (cases "serial_cb_byte c s") (simp_all add: serial_cb_def)

lemma feed_append: "feed (xs @ ys) s = (feed xs s \<bind> feed ys)"
  by (induction xs arbitrary: s) (simp_all split: bind_split)

lemma serial_cb_byte_terminator_empty:
  "is_terminator c \<Longrightarrow> rx_buf_pos s = 0 \<Longrightarrow> serial_cb_byte c s = Some s"
  by (simp add: serial_cb_byte_def is_terminator_def)

lemma serial_cb_byte_data_full:
  "\<not> is_terminator c \<Longrightarrow> rx_buf_pos s = 31 \<Longrightarrow> serial_cb_byte c s = Some s"
  by (simp add: serial_cb_byte_def is_terminator_def MSG_SIZE_def)

lemma serial_cb_byte_data_room:
  assumes "\<not> is_terminator c" "rx_inv s" "rx_buf_pos s < 31"
  shows "serial_cb_byte c s =
    Some (s\<lparr>rx_buf := (rx_buf s)[nat (rx_buf_pos s) := c], rx_buf_pos := rx_buf_pos s + 1,
            uart_out := uart_out s @ [c]\<rparr>)"
  using assms by (simp add: serial_cb_byte_def is_terminator_def MSG_SIZE_def rx_inv_def store_def)

lemma serial_cb_byte_terminator_line:
  assumes "is_terminator c" "rx_inv s" "rx_buf_pos s \<noteq> 0"
  shows "serial_cb_byte c s =
    Some (s\<lparr>rx_buf := (rx_buf s)[nat (rx_buf_pos s) := NUL],
            uart_out := uart_out s @ [CR, LF],
            uart_msgq := (if length (uart_msgq s) < 10
                          then uart_msgq s @ [(rx_buf s)[nat (rx_buf_pos s) := NUL]]
                          else uart_msgq s),
            rx_buf_pos := 0\<rparr>)"
  using assms
  by (simp add: serial_cb_byte_def is_terminator_def MSG_SIZE_def rx_inv_def store_def k_msgq_put_def)

lemma rx_inv_init: "rx_inv init_state"
  by (simp add: rx_inv_def init_state_def MSG_SIZE_def)

lemma serial_cb_byte_cases:
  assumes "rx_inv s"
  shows "\<exists>s'. serial_cb_byte c s = Some s' \<and> rx_inv s' \<and>
     (is_terminator c \<and> rx_buf_pos s = 0 \<and> s' = s \<or>
      is_terminator c \<and> 0 < rx_buf_pos s \<and> rx_buf_pos s' = 0 \<and>
        rx_buf s' = (rx_buf s)[nat (rx_buf_pos s) := NUL] \<or>
      \<not> is_terminator c \<and> rx_buf_pos s < 31 \<and> rx_buf_pos s' = rx_buf_pos s + 1 \<and>
        rx_buf s' = (rx_buf s)[nat (rx_buf_pos s) := c] \<or>
      \<not> is_terminator c \<and> rx_buf_pos s = 31 \<and> s' = s)"
proof (cases "is_terminator c")
  case True
  show ?thesis
  proof (cases "rx_buf_pos s = 0")
    case True
    with \<open>is_terminator c\<close> assms show ?thesis
      by (simp add: serial_cb_byte_terminator_empty)
  next
    case False
    with \<open>is_terminator c\<close> assms show ?thesis
      by (simp add: serial_cb_byte_terminator_line) (simp add: rx_inv_def)
  qed
next
  case False
  show ?thesis
  proof (cases "rx_buf_pos s = 31")
    case True
    with \<open>\<not> is_terminator c\<close> assms show ?thesis
      by (simp add: serial_cb_byte_data_full)
  next
    case False
    with assms have "rx_buf_pos s < 31" by (simp add: rx_inv_def)
    with \<open>\<not> is_terminator c\<close> assms show ?thesis
      by (simp add: serial_cb_byte_data_room) (simp add: rx_inv_def)
  qed
qed

lemma reachable_rx_inv: "reachable s \<Longrightarrow> rx_inv s"
proof (induction rule: reachable.induct)
  case reachable_init
  show ?case by (rule rx_inv_init)
next
  case (reachable_step s c s')
  with serial_cb_byte_cases [of s c] show ?case by auto
qed

lemma serial_cb_loop_reachable:
  "reachable s \<Longrightarrow> \<exists>s'. serial_cb_loop fifo s = Some s' \<and> reachable s'"
proof (induction fifo arbitrary: s)
  case Nil
  then show ?case by simp
next
  case (Cons c fifo)
  from serial_cb_byte_cases [OF reachable_rx_inv [OF Cons.prems], of c]
  obtain s1 where s1: "serial_cb_byte c s = Some s1" by blast
  with Cons.prems have "reachable s1" by (rule reachable_step)
  from Cons.IH [OF this] s1 show ?case by simp
qed

lemma feed_reachable: "reachable s \<Longrightarrow> feed bs s = Some s' \<Longrightarrow> reachable s'"
proof (induction bs arbitrary: s)
  case Nil
  then show ?case by simp
next
  case (Cons b bs)
  from Cons.prems(2) obtain s1 where s1: "serial_cb_byte b s = Some s1" and f: "feed bs s1 = Some s'"
    by (auto simp: serial_cb_single split: bind_splits)
  from Cons.prems(1) s1 have "reachable s1" by (rule reachable_step)
  from Cons.IH [OF this f] show ?case .
qed

text \<open>
  Claim C9. From every reachable state and for every byte, the loop body makes no write
  outside \<^verbatim>\<open>rx_buf\<close> (its result is not \<open>None\<close>), and afterwards the cursor is between
  0 and 31 and the buffer still has 32 bytes. Its one write, if any, is at the old cursor:
  a byte that is no terminator is stored only when the cursor is below 31, and when the
  cursor is 31 the only byte stored there is the NUL of a completed line. The same holds
  for a whole call of \<^verbatim>\<open>serial_cb\<close> on any FIFO content: it ends in a reachable state.
\<close>

theorem rx_buf_in_bounds:
  assumes "reachable s"
  shows "(\<exists>s'. serial_cb_byte c s = Some s' \<and>
           0 \<le> rx_buf_pos s' \<and> rx_buf_pos s' \<le> 31 \<and> length (rx_buf s') = MSG_SIZE \<and>
           (is_terminator c \<and> rx_buf_pos s = 0 \<and> s' = s \<or>
            is_terminator c \<and> 0 < rx_buf_pos s \<and> rx_buf_pos s \<le> 31 \<and> rx_buf_pos s' = 0 \<and>
              rx_buf s' = (rx_buf s)[nat (rx_buf_pos s) := NUL] \<or>
            \<not> is_terminator c \<and> 0 \<le> rx_buf_pos s \<and> rx_buf_pos s < 31 \<and>
              rx_buf_pos s' = rx_buf_pos s + 1 \<and>
              rx_buf s' = (rx_buf s)[nat (rx_buf_pos s) := c] \<or>
            \<not> is_terminator c \<and> rx_buf_pos s = 31 \<and> s' = s)) \<and>
         (\<exists>s'. serial_cb irq_update rx_ready fifo s = Some s' \<and> reachable s')"
proof
  from assms have inv: "rx_inv s" by (rule reachable_rx_inv)
  from serial_cb_byte_cases [OF inv, of c] inv
  show "\<exists>s'. serial_cb_byte c s = Some s' \<and>
           0 \<le> rx_buf_pos s' \<and> rx_buf_pos s' \<le> 31 \<and> length (rx_buf s') = MSG_SIZE \<and>
           (is_terminator c \<and> rx_buf_pos s = 0 \<and> s' = s \<or>
            is_terminator c \<and> 0 < rx_buf_pos s \<and> rx_buf_pos s \<le> 31 \<and> rx_buf_pos s' = 0 \<and>
              rx_buf s' = (rx_buf s)[nat (rx_buf_pos s) := NUL] \<or>
            \<not> is_terminator c \<and> 0 \<le> rx_buf_pos s \<and> rx_buf_pos s < 31 \<and>
              rx_buf_pos s' = rx_buf_pos s + 1 \<and>
              rx_buf s' = (rx_buf s)[nat (rx_buf_pos s) := c] \<or>
            \<not> is_terminator c \<and> rx_buf_pos s = 31 \<and> s' = s)"
    unfolding rx_inv_def by blast
next
  from serial_cb_loop_reachable [OF assms, of fifo] assms
  show "\<exists>s'. serial_cb irq_update rx_ready fifo s = Some s' \<and> reachable s'"
    by (auto simp: serial_cb_def)
qed

theorem rx_buf_in_bounds_witness:
  "reachable \<lparr>rx_buf = replicate 31 (CHR ''a'') @ [NUL], rx_buf_pos = 31,
              uart_out = replicate 31 (CHR ''a''), uart_msgq = []\<rparr> \<and>
   serial_cb_byte (CHR ''b'') \<lparr>rx_buf = replicate 31 (CHR ''a'') @ [NUL], rx_buf_pos = 31,
              uart_out = replicate 31 (CHR ''a''), uart_msgq = []\<rparr> =
     Some \<lparr>rx_buf = replicate 31 (CHR ''a'') @ [NUL], rx_buf_pos = 31,
              uart_out = replicate 31 (CHR ''a''), uart_msgq = []\<rparr> \<and>
   (\<exists>s'. serial_cb_byte CR \<lparr>rx_buf = replicate 31 (CHR ''a'') @ [NUL], rx_buf_pos = 31,
              uart_out = replicate 31 (CHR ''a''), uart_msgq = []\<rparr> = Some s' \<and>
      rx_buf_pos s' = 0 \<and> rx_buf s' = (replicate 31 (CHR ''a'') @ [NUL])[31 := NUL])"
proof -
  let ?s = "\<lparr>rx_buf = replicate 31 (CHR ''a'') @ [NUL], rx_buf_pos = 31,
              uart_out = replicate 31 (CHR ''a''), uart_msgq = []\<rparr>"
  have "feed (replicate 31 (CHR ''a'')) init_state = Some ?s"
    by code_simp
  with reachable_init have r: "reachable ?s" by (rule feed_reachable)
  have t: "\<not> is_terminator (CHR ''b'')" "is_terminator CR" by (simp_all add: is_terminator_def)
  from rx_buf_in_bounds [OF r, of "CHR ''b''" True True "[]", THEN conjunct1]
    rx_buf_in_bounds [OF r, of CR True True "[]", THEN conjunct1] r t
  show ?thesis by auto
qed

lemma feed_data_full:
  "\<forall>c \<in> set bs. \<not> is_terminator c \<Longrightarrow> rx_buf_pos s = 31 \<Longrightarrow> feed bs s = Some s"
  by (induction bs) (simp_all add: serial_cb_single serial_cb_byte_data_full)

lemma feed_data_room:
  assumes "\<forall>c \<in> set bs. \<not> is_terminator c" "length (rx_buf s) = MSG_SIZE"
    and "rx_buf_pos s = int p" "p + length bs \<le> 31"
  shows "feed bs s =
    Some (s\<lparr>rx_buf := take p (rx_buf s) @ bs @ drop (p + length bs) (rx_buf s),
            rx_buf_pos := int (p + length bs), uart_out := uart_out s @ bs\<rparr>)"
  using assms
proof (induction bs arbitrary: s p)
  case Nil
  then show ?case by simp
next
  case (Cons c bs)
  let ?s1 = "s\<lparr>rx_buf := (rx_buf s)[p := c], rx_buf_pos := int (Suc p), uart_out := uart_out s @ [c]\<rparr>"
  from Cons.prems have inv: "rx_inv s" and lt: "rx_buf_pos s < 31" and nt: "\<not> is_terminator c"
    by (simp_all add: rx_inv_def)
  from Cons.prems have pl: "p < length (rx_buf s)" by (simp add: MSG_SIZE_def)
  have step: "serial_cb_byte c s = Some ?s1"
    using serial_cb_byte_data_room [OF nt inv lt] Cons.prems(3) by simp
  have "feed bs ?s1 =
    Some (?s1\<lparr>rx_buf := take (Suc p) (rx_buf ?s1) @ bs @ drop (Suc p + length bs) (rx_buf ?s1),
            rx_buf_pos := int (Suc p + length bs), uart_out := uart_out ?s1 @ bs\<rparr>)"
    using Cons.prems by (intro Cons.IH) simp_all
  moreover have "take (Suc p) ((rx_buf s)[p := c]) = take p (rx_buf s) @ [c]"
    using pl by (simp add: take_Suc_conv_app_nth)
  moreover have "drop (Suc p + length bs) ((rx_buf s)[p := c]) = drop (Suc p + length bs) (rx_buf s)"
    by simp
  ultimately show ?case
    using step by (simp add: serial_cb_single)
qed

lemma cstring_append_NUL: "NUL \<notin> set xs \<Longrightarrow> cstring (xs @ NUL # ys) = xs"
  by (induction xs) (auto simp: cstring_def)

lemma feed_fill:
  assumes "\<forall>c \<in> set bs. \<not> is_terminator c" "31 \<le> length bs"
    and "length (rx_buf s) = MSG_SIZE" "rx_buf_pos s = 0"
  shows "feed bs s =
    Some (s\<lparr>rx_buf := take 31 bs @ drop 31 (rx_buf s), rx_buf_pos := 31,
            uart_out := uart_out s @ take 31 bs\<rparr>)"
proof -
  let ?s = "s\<lparr>rx_buf := take 31 bs @ drop 31 (rx_buf s), rx_buf_pos := 31,
            uart_out := uart_out s @ take 31 bs\<rparr>"
  have a: "\<forall>c \<in> set (take 31 bs). \<not> is_terminator c" and b: "\<forall>c \<in> set (drop 31 bs). \<not> is_terminator c"
    using assms(1) by (auto dest: in_set_takeD in_set_dropD)
  have "feed (take 31 bs) s = Some ?s"
    using feed_data_room [OF a assms(3), of 0] assms(2,4) by (simp add: min_def)
  moreover have "feed (drop 31 bs) ?s = Some ?s"
    using b by (intro feed_data_full) simp_all
  ultimately show ?thesis
    using feed_append [of "take 31 bs" "drop 31 bs" s] by simp
qed

lemma last_slot_update:
  assumes "length xs = 31" "length buf = 32"
  shows "(xs @ drop 31 buf)[31 := c] = xs @ [c]"
proof -
  define ys where "ys = drop 31 buf"
  then have "length ys = Suc 0" using assms(2) by simp
  then obtain z where "ys = [z]"
    by (cases ys) auto
  with assms(1) show ?thesis
    unfolding ys_def [symmetric] by (simp add: list_update_append)
qed

text \<open>
  Claim C6. At least 31 bytes that are no terminators (the 40 of the claim among them),
  fed one at a time to a state with the cursor at 0, the initial state for one: the first
  31 are stored and echoed, the others change nothing. A terminator then puts one message
  on the queue if it has a free slot, the first 31 bytes and a NUL, and sends CR and LF.
  When no byte is NUL the line of that message is exactly the first 31 bytes. In any
  state, a byte that is no terminator and arrives with the cursor at 31 leaves the whole
  state as it is: nothing is stored, sent or queued.
\<close>

theorem line_assembly_overflow:
  assumes "\<forall>c \<in> set bs. \<not> is_terminator c" "31 \<le> length bs" "is_terminator t"
    and "length (rx_buf s) = MSG_SIZE" "rx_buf_pos s = 0"
  shows "feed bs s =
           Some (s\<lparr>rx_buf := take 31 bs @ drop 31 (rx_buf s), rx_buf_pos := 31,
                   uart_out := uart_out s @ take 31 bs\<rparr>) \<and>
         feed (bs @ [t]) s =
           Some (s\<lparr>rx_buf := take 31 bs @ [NUL],
                   uart_out := uart_out s @ take 31 bs @ [CR, LF],
                   uart_msgq := (if length (uart_msgq s) < 10
                                 then uart_msgq s @ [take 31 bs @ [NUL]] else uart_msgq s),
                   rx_buf_pos := 0\<rparr>) \<and>
         (NUL \<notin> set bs \<longrightarrow> cstring (take 31 bs @ [NUL]) = take 31 bs) \<and>
         length (take 31 bs) = 31 \<and>
         (rx_buf_pos s' = 31 \<and> \<not> is_terminator c \<longrightarrow> serial_cb True True [c] s' = Some s')"
proof (intro conjI impI)
  let ?s = "s\<lparr>rx_buf := take 31 bs @ drop 31 (rx_buf s), rx_buf_pos := 31,
              uart_out := uart_out s @ take 31 bs\<rparr>"
  show f: "feed bs s = Some ?s"
    using assms(1,2,4,5) by (rule feed_fill)
  have inv: "rx_inv ?s" using assms(2,4) by (simp add: rx_inv_def MSG_SIZE_def)
  have upd: "(take 31 bs @ drop 31 (rx_buf s))[31 := NUL] = take 31 bs @ [NUL]"
    using assms(2,4) by (intro last_slot_update) (simp_all add: MSG_SIZE_def)
  have "serial_cb_byte t ?s =
        Some (s\<lparr>rx_buf := take 31 bs @ [NUL],
                uart_out := uart_out s @ take 31 bs @ [CR, LF],
                uart_msgq := (if length (uart_msgq s) < 10
                              then uart_msgq s @ [take 31 bs @ [NUL]] else uart_msgq s),
                rx_buf_pos := 0\<rparr>)"
    using serial_cb_byte_terminator_line [OF assms(3) inv] upd by simp
  with f show "feed (bs @ [t]) s =
           Some (s\<lparr>rx_buf := take 31 bs @ [NUL],
                   uart_out := uart_out s @ take 31 bs @ [CR, LF],
                   uart_msgq := (if length (uart_msgq s) < 10
                                 then uart_msgq s @ [take 31 bs @ [NUL]] else uart_msgq s),
                   rx_buf_pos := 0\<rparr>)"
    by (simp add: feed_append serial_cb_single)
  show "length (take 31 bs) = 31" using assms(2) by simp
next
  assume "NUL \<notin> set bs"
  then have "NUL \<notin> set (take 31 bs)" by (auto dest: in_set_takeD)
  then show "cstring (take 31 bs @ [NUL]) = take 31 bs"
    by (rule cstring_append_NUL)
next
  assume "rx_buf_pos s' = 31 \<and> \<not> is_terminator c"
  then show "serial_cb True True [c] s' = Some s'"
    by (simp add: serial_cb_single serial_cb_byte_data_full)
qed

theorem line_assembly_overflow_witness:
  "feed (''0123456789abcdefghijklmnopqrstuvwxyzABCD'' @ [LF]) init_state =
     Some \<lparr>rx_buf = ''0123456789abcdefghijklmnopqrstu'' @ [NUL], rx_buf_pos = 0,
            uart_out = ''0123456789abcdefghijklmnopqrstu'' @ [CR, LF],
            uart_msgq = [''0123456789abcdefghijklmnopqrstu'' @ [NUL]]\<rparr> \<and>
   cstring (''0123456789abcdefghijklmnopqrstu'' @ [NUL]) = ''0123456789abcdefghijklmnopqrstu'' \<and>
   length ''0123456789abcdefghijklmnopqrstuvwxyzABCD'' = 40 \<and>
   serial_cb True True [CHR ''v''] \<lparr>rx_buf = ''0123456789abcdefghijklmnopqrstu'' @ [NUL],
       rx_buf_pos = 31, uart_out = ''0123456789abcdefghijklmnopqrstu'', uart_msgq = []\<rparr> =
     Some \<lparr>rx_buf = ''0123456789abcdefghijklmnopqrstu'' @ [NUL],
       rx_buf_pos = 31, uart_out = ''0123456789abcdefghijklmnopqrstu'', uart_msgq = []\<rparr>"
  using line_assembly_overflow [of "''0123456789abcdefghijklmnopqrstuvwxyzABCD''" LF init_state
     "\<lparr>rx_buf = ''0123456789abcdefghijklmnopqrstu'' @ [NUL],
       rx_buf_pos = 31, uart_out = ''0123456789abcdefghijklmnopqrstu'', uart_msgq = []\<rparr>" "CHR ''v''"]
  by (simp add: is_terminator_def init_state_def MSG_SIZE_def)

lemma cstring_line_update:
  assumes "NUL \<notin> set xs" "length xs < length buf"
  shows "cstring ((xs @ drop (length xs) buf)[length xs := NUL]) = xs"
proof -
  define ys where "ys = drop (length xs) buf"
  then have "ys \<noteq> []" using assms(2) by simp
  then obtain z zs where "ys = z # zs"
    by (cases ys) auto
  then have "(xs @ drop (length xs) buf)[length xs := NUL] = xs @ NUL # zs"
    unfolding ys_def [symmetric] by (simp add: list_update_append)
  with assms(1) show ?thesis by (simp add: cstring_append_NUL)
qed

lemma feed_line:
  assumes "\<forall>c \<in> set xs. \<not> is_terminator c" "xs \<noteq> []" "length xs \<le> 31"
    and "length (rx_buf s) = MSG_SIZE" "rx_buf_pos s = 0" "is_terminator t"
  shows "feed (xs @ [t]) s =
    Some (s\<lparr>rx_buf := (xs @ drop (length xs) (rx_buf s))[length xs := NUL],
            uart_out := uart_out s @ xs @ [CR, LF],
            uart_msgq := (if length (uart_msgq s) < 10
               then uart_msgq s @ [(xs @ drop (length xs) (rx_buf s))[length xs := NUL]]
               else uart_msgq s),
            rx_buf_pos := 0\<rparr>)"
proof -
  let ?s = "s\<lparr>rx_buf := xs @ drop (length xs) (rx_buf s), rx_buf_pos := int (length xs),
              uart_out := uart_out s @ xs\<rparr>"
  have f: "feed xs s = Some ?s"
    using feed_data_room [OF assms(1,4), of 0] assms(3,5) by simp
  have inv: "rx_inv ?s" using assms(3,4) by (simp add: rx_inv_def MSG_SIZE_def)
  have "rx_buf_pos ?s \<noteq> 0" using assms(2) by simp
  from serial_cb_byte_terminator_line [OF assms(6) inv this] f
  show ?thesis by (simp add: feed_append serial_cb_single)
qed

text \<open>
  Claim C5. The bytes of \<open>12+3\<close>, CR, LF fed one at a time from the initial state: the
  queue is empty until the CR arrives, holds the one line \<open>12+3\<close> after it, and is the same
  after the LF; the bytes sent are the echo of the four characters, then CR and LF. The
  same from any state with the cursor at 0 and a free slot in the queue, whatever the
  buffer holds, and for any two terminators: exactly one message is added, and its line is
  \<open>12+3\<close>. In any state, a terminator that arrives with the cursor at 0 leaves the whole
  state as it is.
\<close>

theorem line_assembly_crlf:
  "map (\<lambda>bs. map_option (\<lambda>s. (map cstring (uart_msgq s), rx_buf_pos s)) (feed bs init_state))
     [[], ''1'', ''12'', ''12+'', ''12+3'', ''12+3'' @ [CR], ''12+3'' @ [CR, LF]] =
     [Some ([], 0), Some ([], 1), Some ([], 2), Some ([], 3), Some ([], 4),
      Some ([''12+3''], 0), Some ([''12+3''], 0)] \<and>
   map_option uart_out (feed (''12+3'' @ [CR, LF]) init_state) = Some (''12+3'' @ [CR, LF]) \<and>
   (length (rx_buf s) = MSG_SIZE \<and> rx_buf_pos s = 0 \<and> length (uart_msgq s) < 10 \<and>
    is_terminator t \<and> is_terminator t' \<longrightarrow>
      (\<exists>s' m. feed (''12+3'' @ [t, t']) s = Some s' \<and>
         uart_msgq s' = uart_msgq s @ [m] \<and> cstring m = ''12+3'' \<and> length m = MSG_SIZE \<and>
         rx_buf_pos s' = 0 \<and> uart_out s' = uart_out s @ ''12+3'' @ [CR, LF])) \<and>
   (is_terminator c \<and> rx_buf_pos s0 = 0 \<longrightarrow> serial_cb True True [c] s0 = Some s0)"
proof (intro conjI impI)
  show "map (\<lambda>bs. map_option (\<lambda>s. (map cstring (uart_msgq s), rx_buf_pos s)) (feed bs init_state))
     [[], ''1'', ''12'', ''12+'', ''12+3'', ''12+3'' @ [CR], ''12+3'' @ [CR, LF]] =
     [Some ([], 0), Some ([], 1), Some ([], 2), Some ([], 3), Some ([], 4),
      Some ([''12+3''], 0), Some ([''12+3''], 0)]"
    by code_simp
  show "map_option uart_out (feed (''12+3'' @ [CR, LF]) init_state) = Some (''12+3'' @ [CR, LF])"
    by code_simp
next
  assume "is_terminator c \<and> rx_buf_pos s0 = 0"
  then show "serial_cb True True [c] s0 = Some s0"
    by (simp add: serial_cb_single serial_cb_byte_terminator_empty)
next
  assume h: "length (rx_buf s) = MSG_SIZE \<and> rx_buf_pos s = 0 \<and> length (uart_msgq s) < 10 \<and>
    is_terminator t \<and> is_terminator t'"
  let ?xs = "''12+3''"
  let ?m = "(?xs @ drop (length ?xs) (rx_buf s))[length ?xs := NUL]"
  let ?s = "s\<lparr>rx_buf := ?m, uart_out := uart_out s @ ?xs @ [CR, LF],
              uart_msgq := uart_msgq s @ [?m], rx_buf_pos := 0\<rparr>"
  have nt: "\<forall>c \<in> set ?xs. \<not> is_terminator c" by (simp add: is_terminator_def)
  have "feed (?xs @ [t]) s = Some ?s"
    using feed_line [OF nt, of s t] h by simp
  moreover have "feed [t'] ?s = Some ?s"
    using h by (simp add: serial_cb_single serial_cb_byte_terminator_empty)
  ultimately have f: "feed ((?xs @ [t]) @ [t']) s = Some ?s"
    by (simp only: feed_append bind.bind_lunit)
  have c: "cstring ?m = ?xs"
    using h by (intro cstring_line_update) (simp_all add: MSG_SIZE_def)
  have l: "length ?m = MSG_SIZE" using h by (simp add: MSG_SIZE_def)
  from f c l show "\<exists>s' m. feed (''12+3'' @ [t, t']) s = Some s' \<and>
         uart_msgq s' = uart_msgq s @ [m] \<and> cstring m = ''12+3'' \<and> length m = MSG_SIZE \<and>
         rx_buf_pos s' = 0 \<and> uart_out s' = uart_out s @ ''12+3'' @ [CR, LF]"
    by (intro exI [of _ ?s] exI [of _ ?m]) simp
qed

theorem line_assembly_crlf_witness:
  "is_terminator LF \<and> is_terminator CR \<and> rx_buf_pos init_state = 0 \<and>
   length (rx_buf init_state) = MSG_SIZE \<and> length (uart_msgq init_state) < 10 \<and>
   serial_cb True True [LF] init_state = Some init_state \<and>
   serial_cb True True [CR] init_state = Some init_state \<and>
   (\<exists>s' m. feed (''12+3'' @ [CR, LF]) init_state = Some s' \<and> uart_msgq s' = [m] \<and>
      cstring m = ''12+3'')"
proof -
  have h: "is_terminator LF" "is_terminator CR" "rx_buf_pos init_state = 0"
    "length (rx_buf init_state) = MSG_SIZE" "length (uart_msgq init_state) < 10"
    by (simp_all add: is_terminator_def init_state_def)
  have "uart_msgq init_state = []" by (simp add: init_state_def)
  with line_assembly_crlf [where c = LF and ?s0.0 = init_state and s = init_state
      and t = CR and t' = LF]
    line_assembly_crlf [where c = CR and ?s0.0 = init_state and s = init_state
      and t = CR and t' = LF] h
  show ?thesis by auto
qed

section \<open>Properties of the driving loop\<close>

lemma digit_char_not_NUL: "d < 10 \<Longrightarrow> char_of (48 + d :: nat) \<noteq> NUL"
proof
  assume d: "d < 10" and "char_of (48 + d) = NUL"
  then have "(of_char (char_of (48 + d)) :: nat) = of_char NUL" by simp
  then have "(48 + d) mod 256 = 0" by simp
  with d show False by simp
qed

lemma show_nat_no_NUL: "NUL \<notin> set (show_nat n)"
proof (induction n rule: show_nat.induct)
  case (1 n)
  show ?case
  proof (cases "n < 10")
    case True
    then show ?thesis
      using digit_char_not_NUL [of n] by (subst show_nat.simps) auto
  next
    case False
    with 1 have "NUL \<notin> set (show_nat (n div 10))" by simp
    moreover have "char_of (48 + n mod 10) \<noteq> NUL"
      by (rule digit_char_not_NUL) simp
    ultimately show ?thesis
      using False by (subst show_nat.simps) auto
  qed
qed

lemma length_show_nat: "0 < k \<Longrightarrow> n < 10 ^ k \<Longrightarrow> length (show_nat n) \<le> k"
proof (induction n arbitrary: k rule: show_nat.induct)
  case (1 n)
  show ?case
  proof (cases "n < 10")
    case True
    with 1(2) show ?thesis by (subst show_nat.simps) simp
  next
    case False
    have "k \<noteq> 1" using False 1(3) by auto
    with 1(2) have k: "1 < k" by simp
    then obtain j where j: "k = Suc j" "0 < j" by (cases k) auto
    with 1(3) have "n div 10 < 10 ^ j"
      by (simp add: less_mult_imp_div_less mult.commute)
    with 1(1) [OF False j(2)] have "length (show_nat (n div 10)) \<le> j" by simp
    with False j show ?thesis by (subst show_nat.simps) simp
  qed
qed

lemma show_int_no_NUL: "NUL \<notin> set (show_int i)"
  by (simp add: show_int_def show_nat_no_NUL)

lemma length_show_int_sint: "length (show_int (sint (v :: int32))) \<le> 11"
proof -
  have b: "- 2147483648 \<le> sint v" "sint v < 2147483648"
    using sint_ge [of v] sint_lt [of v] by simp_all
  have e: "(10::nat) ^ 10 = 10000000000" by simp
  have "nat (- sint v) < 10000000000" "nat (sint v) < 10000000000"
    using b by linarith+
  then have "nat (- sint v) < 10 ^ 10" "nat (sint v) < 10 ^ 10"
    by (simp_all only: e)
  then have "length (show_nat (nat (- sint v))) \<le> 10" "length (show_nat (nat (sint v))) \<le> 10"
    by (intro length_show_nat; simp)+
  then show ?thesis by (simp add: show_int_def)
qed

lemma print_uart_cstring:
  "NUL \<notin> set xs \<Longrightarrow> print_uart (xs @ NUL # ys) (CHR 0x01) = Some (xs @ [CR, LF])"
  by (simp add: print_uart_def strlen_append)

lemma print_result:
  assumes "length tx_buf = MSG_SIZE"
  shows "(sprintf_result tx_buf v \<bind> (\<lambda>b. print_uart b (CHR 0x01))) =
         Some (''Result: '' @ show_int (sint v) @ [CR, LF])"
proof -
  let ?s = "''Result: '' @ show_int (sint v)"
  have len: "length (?s @ [NUL]) \<le> length tx_buf"
    using length_show_int_sint [of v] assms by (simp add: MSG_SIZE_def)
  then have "sprintf_result tx_buf v = Some (?s @ NUL # drop (length (?s @ [NUL])) tx_buf)"
    by (simp add: sprintf_result_def Let_def)
  moreover have "NUL \<notin> set ?s" by (simp add: show_int_no_NUL)
  ultimately show ?thesis
    using print_uart_cstring [of ?s] by simp
qed

lemma main_iteration_spec:
  assumes "length tx_buf = MSG_SIZE"
  shows "main_iteration lb tx_buf = spec_iteration lb tx_buf"
proof (cases "eval_expression lb tx_buf 0")
  case None
  then show ?thesis
    by (simp add: main_iteration_def spec_iteration_def spec_evaluate_def)
next
  case (Some p)
  obtain rc v where p: "p = (rc, v)" by (cases p)
  show ?thesis
  proof (cases "rc = ERR_NONE")
    case True
    with Some p show ?thesis
      using print_result [OF assms, of v]
      by (simp add: main_iteration_def spec_iteration_def spec_evaluate_def)
  next
    case False
    with Some p have "v = 0" using eval_expression_error_result by blast
    with Some p False show ?thesis
      by (cases rc) (simp_all add: main_iteration_def spec_iteration_def spec_evaluate_def print_uart_def)
  qed
qed

lemma spec_iteration_responses:
  assumes "spec_iteration lb line = Some out"
  shows "(\<exists>v. out = ''Result: '' @ show_int v @ [CR, LF]) \<or> out = ''Division by zero!'' @ [CR, LF] \<or>
         out = ''Invalid expression!'' @ [CR, LF]"
proof -
  from assms obtain oc where "out = spec_response oc"
    by (auto simp: spec_iteration_def)
  then show ?thesis by (cases oc) auto
qed

lemma main_loop_spec:
  "\<forall>m \<in> set msgs. length m = MSG_SIZE \<Longrightarrow> main_loop lb msgs = spec_loop lb msgs"
  by (induction msgs) (simp_all add: main_iteration_spec)

text \<open>
  Claim C7. For a message of \<^verbatim>\<open>MSG_SIZE\<close> bytes, one round of the loop of \<^verbatim>\<open>main\<close>, with
  its two calls of \<^verbatim>\<open>eval_expression\<close>, sends what the single evaluation with a three-way
  outcome sends (and is undefined exactly when that one is, which is when the one
  evaluation they share is); so do the two loops on any sequence of such messages, for
  every width of \<^verbatim>\<open>long\<close>. What a round sends is one of the three responses.
  The second call repeats the first: after a failed call \<^verbatim>\<open>result\<close> is still 0, and the
  call returns the same code again. The witness runs the three lines of the specification's
  scenario.
\<close>

theorem main_single_evaluation:
  assumes "length tx_buf = MSG_SIZE" "\<forall>m \<in> set msgs. length m = MSG_SIZE"
  shows "main_iteration lb tx_buf = spec_iteration lb tx_buf \<and>
         main_loop lb msgs = spec_loop lb msgs \<and>
         (\<forall>out. main_iteration lb tx_buf = Some out \<longrightarrow>
            (\<exists>v. out = ''Result: '' @ show_int v @ [CR, LF]) \<or>
            out = ''Division by zero!'' @ [CR, LF] \<or>
            out = ''Invalid expression!'' @ [CR, LF]) \<and>
         (\<forall>rc v. eval_expression lb tx_buf 0 = Some (rc, v) \<longrightarrow> rc \<noteq> ERR_NONE \<longrightarrow>
            eval_expression lb tx_buf v = Some (rc, v))"
proof (intro conjI allI impI)
  show eq: "main_iteration lb tx_buf = spec_iteration lb tx_buf"
    using assms(1) by (rule main_iteration_spec)
  show "main_loop lb msgs = spec_loop lb msgs"
    using assms(2) by (rule main_loop_spec)
  fix out
  assume "main_iteration lb tx_buf = Some out"
  with eq have "spec_iteration lb tx_buf = Some out" by simp
  then show "(\<exists>v. out = ''Result: '' @ show_int v @ [CR, LF]) \<or>
      out = ''Division by zero!'' @ [CR, LF] \<or> out = ''Invalid expression!'' @ [CR, LF]"
    by (rule spec_iteration_responses)
next
  fix rc v
  assume e: "eval_expression lb tx_buf 0 = Some (rc, v)" and "rc \<noteq> ERR_NONE"
  then have "v = 0" by (rule eval_expression_error_result)
  with e show "eval_expression lb tx_buf v = Some (rc, v)" by simp
qed

theorem main_single_evaluation_witness:
  "length (''10 / 2'' @ replicate 26 NUL) = MSG_SIZE \<and>
   main_iteration 32 (''10 / 2'' @ replicate 26 NUL) = Some (''Result: 5'' @ [CR, LF]) \<and>
   main_iteration 32 (''7 % 0'' @ replicate 27 NUL) = Some (''Division by zero!'' @ [CR, LF]) \<and>
   main_iteration 32 (''hello'' @ replicate 27 NUL) = Some (''Invalid expression!'' @ [CR, LF])"
proof -
  have l: "length (''10 / 2'' @ replicate 26 NUL) = MSG_SIZE"
    "length (''7 % 0'' @ replicate 27 NUL) = MSG_SIZE"
    "length (''hello'' @ replicate 27 NUL) = MSG_SIZE"
    by (simp_all add: MSG_SIZE_def)
  have n: "\<forall>m \<in> set ([] :: char list list). length m = MSG_SIZE" by simp
  have s: "spec_iteration 32 (''10 / 2'' @ replicate 26 NUL) = Some (''Result: 5'' @ [CR, LF])"
    "spec_iteration 32 (''7 % 0'' @ replicate 27 NUL) = Some (''Division by zero!'' @ [CR, LF])"
    "spec_iteration 32 (''hello'' @ replicate 27 NUL) = Some (''Invalid expression!'' @ [CR, LF])"
    by code_simp+
  from main_single_evaluation [OF l(1) n, where lb = 32, THEN conjunct1]
    main_single_evaluation [OF l(2) n, where lb = 32, THEN conjunct1]
    main_single_evaluation [OF l(3) n, where lb = 32, THEN conjunct1] l(1) s
  show ?thesis by simp
qed

end
